theory Spec2Isabelle
  imports Complex_Main
begin

section \<open>Configuration and quota tracker\<close>

text \<open>
  The fields of \<open>CONFIG\<close> that the merge loop reads. \<open>MIN_MERGE_AMOUNT\<close> is a bigint. The
  other four are JavaScript numbers, \<open>Number(env) || default\<close>, taken as they are: they
  may be negative or fractional, and never 0. They are modelled as reals, and so are the
  counter of the quota tracker and the index of the loop over the batches.
\<close>

record Config =
  MERGE_INTERVAL_MS :: real
  REQUEST_DELAY_MS :: real
  MIN_MERGE_AMOUNT :: int
  BATCH_SIZE :: real
  HOURLY_QUOTA_LIMIT :: real

record QuotaTracker =
  callsThisHour :: real
  hourStartTime :: int

definition hourMs :: int where
  "hourMs = 60 * 60 * 1000"

text \<open>
  \<open>checkAndUpdateQuota\<close>: \<open>now\<close> is the value read from \<open>Date.now()\<close>; the result is the
  returned boolean and the tracker after the call.
\<close>

definition checkAndUpdateQuota :: "Config \<Rightarrow> int \<Rightarrow> QuotaTracker \<Rightarrow> bool \<times> QuotaTracker" where
  "checkAndUpdateQuota cfg now q =
     (let q1 = (if now - hourStartTime q \<ge> hourMs
                then q\<lparr>callsThisHour := 0, hourStartTime := now\<rparr>
                else q)
      in if callsThisHour q1 \<ge> HOURLY_QUOTA_LIMIT cfg then (False, q1) else (True, q1))"

definition incrementQuota :: "QuotaTracker \<Rightarrow> QuotaTracker" where
  "incrementQuota q = q\<lparr>callsThisHour := callsThisHour q + 1\<rparr>"

section \<open>Relay errors and backoff\<close>

text \<open>
  A value caught from the relay client, seen through the fields the code reads:
  \<open>err.status\<close>, \<open>err.data.error\<close>, \<open>err.error\<close> and \<open>err.message\<close>. A missing
  field (or a thrown value that is no object) is \<open>None\<close>.
\<close>

record RelayError =
  status :: "int option"
  data_error :: "string option"
  error :: "string option"
  message :: "string option"

text \<open>
  The regular expression \<open>/resets in (\d+) seconds/i\<close>. Letters are compared by their
  upper-case code, \<open>\d\<close> is an ASCII digit. \<open>\d+\<close> is greedy and the next pattern
  character is a space, so taking the longest run of digits loses no match.
  \<open>regex_exec\<close> tries every start position from the left and returns capture group 1.
\<close>

definition upper_code :: "char \<Rightarrow> nat" where
  "upper_code c = (let n = of_char c in if 97 \<le> n \<and> n \<le> 122 then n - 32 else n)"

definition is_digit :: "char \<Rightarrow> bool" where
  "is_digit c = (48 \<le> (of_char c :: nat) \<and> (of_char c :: nat) \<le> 57)"

fun strip_prefix_ci :: "string \<Rightarrow> string \<Rightarrow> string option" where
  "strip_prefix_ci [] s = Some s"
| "strip_prefix_ci (p # ps) [] = None"
| "strip_prefix_ci (p # ps) (c # cs) =
     (if upper_code p = upper_code c then strip_prefix_ci ps cs else None)"

definition match_here :: "string \<Rightarrow> string option" where
  "match_here s =
     (case strip_prefix_ci ''resets in '' s of
        None \<Rightarrow> None
      | Some r \<Rightarrow>
          (let ds = takeWhile is_digit r in
           if ds = [] then None
           else (case strip_prefix_ci '' seconds'' (dropWhile is_digit r) of
                   None \<Rightarrow> None
                 | Some _ \<Rightarrow> Some ds)))"

fun regex_exec :: "string \<Rightarrow> string option" where
  "regex_exec [] = match_here []"
| "regex_exec (c # cs) =
     (case match_here (c # cs) of Some ds \<Rightarrow> Some ds | None \<Rightarrow> regex_exec cs)"

text \<open>
  What the pattern means, said without the matcher: \<open>hint_at s p ds\<close> holds when the text
  \<open>s\<close> reads, from position \<open>p\<close> on, \<open>resets in\<close>, a space, the non-empty digit string
  \<open>ds\<close>, a space and \<open>seconds\<close>, in any mix of upper and lower case.
\<close>

definition same_ci :: "string \<Rightarrow> string \<Rightarrow> bool" where
  "same_ci a b = (map upper_code a = map upper_code b)"

definition hint_at :: "string \<Rightarrow> nat \<Rightarrow> string \<Rightarrow> bool" where
  "hint_at s p ds =
     (\<exists>r t post. drop p s = r @ ds @ t @ post \<and> same_ci r ''resets in '' \<and> ds \<noteq> []
        \<and> list_all is_digit ds \<and> same_ci t '' seconds'')"

text \<open>
  JavaScript numbers are IEEE doubles. \<open>round_double n\<close> is the double nearest to the
  natural number \<open>n\<close>, ties going to the even mantissa: below \<open>2^53\<close> it is \<open>n\<close> itself,
  above it keeps the 53 leading bits, and from \<open>2^1024\<close> on it is \<open>Infinity\<close>.
  \<open>ulp_exp n\<close> is the number of low bits that the double drops.
\<close>

datatype number = Finite real | Infinity

fun ulp_exp :: "nat \<Rightarrow> nat" where
  "ulp_exp n = (if n < 2 ^ 53 then 0 else Suc (ulp_exp (n div 2)))"

declare ulp_exp.simps [simp del]

definition round_double :: "nat \<Rightarrow> number" where
  "round_double n =
     (let e = ulp_exp n; q = n div 2 ^ e; r = n mod 2 ^ e;
          m = (if 2 * r < 2 ^ e \<or> (2 * r = 2 ^ e \<and> even q) then q else q + 1) * 2 ^ e
      in if m \<ge> 2 ^ 1024 then Infinity else Finite (real m))"

text \<open>The decimal value of a string of digits.\<close>

definition decimal :: "string \<Rightarrow> nat" where
  "decimal ds = foldl (\<lambda>a c. 10 * a + (of_char c - 48)) 0 ds"

text \<open>
  \<open>Number(match[1])\<close> on a string of decimal digits: the double nearest to its value.
  \<open>js_add\<close> and \<open>js_mul\<close> are \<open>+\<close> and \<open>*\<close> of a double that is a whole number, not
  negative, with a natural number: the exact result, rounded to a double.
\<close>

definition Number :: "string \<Rightarrow> number" where
  "Number ds = round_double (decimal ds)"

fun js_add :: "number \<Rightarrow> nat \<Rightarrow> number" where
  "js_add (Finite x) k = round_double (nat \<lfloor>x\<rfloor> + k)"
| "js_add Infinity k = Infinity"

fun js_mul :: "number \<Rightarrow> nat \<Rightarrow> number" where
  "js_mul (Finite x) k = round_double (nat \<lfloor>x\<rfloor> * k)"
| "js_mul Infinity k = Infinity"

text \<open>\<open>a || b\<close> on optional strings: the left operand when it is a non-empty string.\<close>

definition or_else :: "string option \<Rightarrow> string \<Rightarrow> string" where
  "or_else a b = (case a of None \<Rightarrow> b | Some s \<Rightarrow> if s = [] then b else s)"

definition error_text :: "RelayError \<Rightarrow> string" where
  "error_text err = or_else (data_error err) (or_else (error err) (or_else (message err) []))"

text \<open>\<open>getRelayerBackoffMs\<close>: \<open>None\<close> is the source's \<open>null\<close>, the value is in milliseconds.\<close>

definition getRelayerBackoffMs :: "RelayError \<Rightarrow> number option" where
  "getRelayerBackoffMs err =
     (if status err \<noteq> Some 429 then None
      else (case regex_exec (error_text err) of
              Some ds \<Rightarrow> Some (js_mul (js_add (Number ds) 5) 1000)
            | None \<Rightarrow> Some (Finite 60000)))"

text \<open>
  The reading of \<open>the message of an error\<close> that the claims about the backoff use, said
  without \<open>||\<close>: the first of \<open>data.error\<close>, \<open>error\<close> and \<open>message\<close> that is a non-empty
  string, and the empty string when there is none.
\<close>

definition blank :: "string option \<Rightarrow> bool" where
  "blank a = (a = None \<or> a = Some [])"

definition first_text :: "RelayError \<Rightarrow> string \<Rightarrow> bool" where
  "first_text err m =
     (if \<not> blank (data_error err) then data_error err = Some m
      else if \<not> blank (error err) then error err = Some m
      else if \<not> blank (message err) then message err = Some m
      else m = [])"

text \<open>\<open>s.includes(sub)\<close>: \<open>sub\<close> occurs in \<open>s\<close> as a contiguous substring.\<close>

fun str_includes :: "string \<Rightarrow> string \<Rightarrow> bool" where
  "str_includes [] sub = (sub = [])"
| "str_includes (c # cs) sub = (take (length sub) (c # cs) = sub \<or> str_includes cs sub)"

text \<open>\<open>errData?.data?.error?.includes('0 units remaining')\<close>, read as a condition.\<close>

definition isQuotaExhausted :: "RelayError \<Rightarrow> bool" where
  "isQuotaExhausted err =
     (case data_error err of None \<Rightarrow> False | Some s \<Rightarrow> str_includes s ''0 units remaining'')"

section \<open>Markets, balances and the scan\<close>

record MarketMetadata =
  yesTokenId :: string
  noTokenId :: string
  conditionId :: string
  marketSlug :: "string option"

text \<open>Balances are \<open>uint256\<close> values returned by \<open>balanceOf\<close>, hence never negative.\<close>

record TokenBalance =
  yesBalance :: nat
  noBalance :: nat

record MergeCandidate =
  market :: MarketMetadata
  minBalance :: nat

text \<open>
  The locals of phase 1. \<open>getTokenBalances\<close> is a parameter of the scan: it answers
  \<open>None\<close> when the read throws.
\<close>

record ScanState =
  candidates :: "MergeCandidate list"
  skippedZero :: nat
  skippedBelowMin :: nat

definition scan_start :: ScanState where
  "scan_start = \<lparr>candidates = [], skippedZero = 0, skippedBelowMin = 0\<rparr>"

definition scan_market ::
  "(MarketMetadata \<Rightarrow> TokenBalance option) \<Rightarrow> Config \<Rightarrow> MarketMetadata \<Rightarrow> ScanState \<Rightarrow> ScanState" where
  "scan_market getTokenBalances cfg m st =
     (case getTokenBalances m of
        None \<Rightarrow> st
      | Some balances \<Rightarrow>
          (let mb = (if yesBalance balances < noBalance balances
                     then yesBalance balances else noBalance balances)
           in if mb = 0 then st\<lparr>skippedZero := skippedZero st + 1\<rparr>
              else if int mb < MIN_MERGE_AMOUNT cfg
              then st\<lparr>skippedBelowMin := skippedBelowMin st + 1\<rparr>
              else st\<lparr>candidates := candidates st @ [\<lparr>market = m, minBalance = mb\<rparr>]\<rparr>))"

fun scan ::
  "(MarketMetadata \<Rightarrow> TokenBalance option) \<Rightarrow> Config \<Rightarrow> MarketMetadata list \<Rightarrow> ScanState \<Rightarrow> ScanState" where
  "scan getTokenBalances cfg [] st = st"
| "scan getTokenBalances cfg (m # ms) st =
     scan getTokenBalances cfg ms (scan_market getTokenBalances cfg m st)"

section \<open>Batching\<close>

text \<open>
  \<open>xs.slice(b, e)\<close> with number arguments, as \<open>Array.prototype.slice\<close> reads them: each is
  cut to a whole number towards zero; a negative one counts from the end of the array;
  both are clamped to the array.
\<close>

definition toInteger :: "real \<Rightarrow> int" where
  "toInteger x = (if x < 0 then \<lceil>x\<rceil> else \<lfloor>x\<rfloor>)"

definition relative_index :: "nat \<Rightarrow> real \<Rightarrow> nat" where
  "relative_index len x =
     (let r = toInteger x
      in if r < 0 then nat (max (int len + r) 0) else nat (min r (int len)))"

definition slice :: "'a list \<Rightarrow> real \<Rightarrow> real \<Rightarrow> 'a list" where
  "slice xs b e =
     (let k = relative_index (length xs) b; f = relative_index (length xs) e
      in take (f - k) (drop k xs))"

text \<open>\<open>totalBatches = Math.ceil(candidates.length / CONFIG.BATCH_SIZE)\<close>.\<close>

definition totalBatches :: "nat \<Rightarrow> real \<Rightarrow> int" where
  "totalBatches n B = \<lceil>real n / B\<rceil>"


section \<open>Execution engine\<close>

text \<open>
  What the relay does with one \<open>relayer.execute\<close> call: the call itself throws, or it
  returns a handle whose \<open>wait()\<close> throws, resolves to nothing, or resolves to a result.
\<close>

record RelayerResult =
  state :: string
  transactionHash :: "string option"

datatype Outcome =
    ExecuteThrows RelayError
  | WaitThrows RelayError
  | WaitNull
  | WaitResult RelayerResult

text \<open>
  The world outside: \<open>relay k\<close> is the outcome of the \<open>k\<close>-th call of \<open>relayer.execute\<close>,
  \<open>clock k\<close> the \<open>k\<close>-th value read from \<open>Date.now()\<close>. \<open>encodes c\<close> tells whether
  building the transaction and the label of candidate \<open>c\<close> succeeds: \<open>encodeFunctionData\<close>
  belongs to a library and throws, for one, on a condition identifier that is not 32
  bytes long.
\<close>

record Env =
  relay :: "nat \<Rightarrow> Outcome"
  clock :: "nat \<Rightarrow> int"
  encodes :: "MergeCandidate \<Rightarrow> bool"

datatype LogLine =
    ScanComplete nat nat nat
  | MergeCycleComplete nat nat

text \<open>
  The state of the process: the module's quota tracker, the number of
  \<open>relayer.execute\<close> calls and of clock reads made so far, the sleeps made, the summary
  lines printed and the batches built so far, and the two counters of phase 2.
\<close>

record State =
  quotaTracker :: QuotaTracker
  sent :: nat
  ticks :: nat
  slept :: "number list"
  logged :: "LogLine list"
  built :: "MergeCandidate list list"
  mergedCount :: nat
  errorCount :: nat

definition sleep :: "number \<Rightarrow> State \<Rightarrow> State" where
  "sleep ms s = s\<lparr>slept := slept s @ [ms]\<rparr>"

definition checkQuotaNow :: "Env \<Rightarrow> Config \<Rightarrow> State \<Rightarrow> bool \<times> State" where
  "checkQuotaNow env cfg s =
     (let r = checkAndUpdateQuota cfg (clock env (ticks s)) (quotaTracker s)
      in (fst r, s\<lparr>quotaTracker := snd r, ticks := ticks s + 1\<rparr>))"

definition maxAttempts :: nat where
  "maxAttempts = 3"

definition no_result_error :: RelayError where
  "no_result_error =
     \<lparr>status = None, data_error = None, error = None,
      message = Some ''Relayer returned no result.''\<rparr>"

text \<open>
  The body of the \<open>try\<close> block of one attempt: \<open>relayer.execute\<close>, then
  \<open>incrementQuota()\<close>, then \<open>response.wait()\<close> and the test of its result. \<open>Inl\<close> is the
  value that reaches the \<open>catch\<close> block.
\<close>

definition try_submit :: "Outcome \<Rightarrow> State \<Rightarrow> (RelayError + RelayerResult) \<times> State" where
  "try_submit out s =
     (let s1 = s\<lparr>sent := sent s + 1\<rparr>;
          s2 = s1\<lparr>quotaTracker := incrementQuota (quotaTracker s1)\<rparr>
      in case out of
           ExecuteThrows e \<Rightarrow> (Inl e, s1)
         | WaitThrows e \<Rightarrow> (Inl e, s2)
         | WaitNull \<Rightarrow> (Inl no_result_error, s2)
         | WaitResult r \<Rightarrow> (Inr r, s2))"

definition markExhausted :: "Config \<Rightarrow> State \<Rightarrow> State" where
  "markExhausted cfg s =
     s\<lparr>quotaTracker := (quotaTracker s)\<lparr>callsThisHour := HOURLY_QUOTA_LIMIT cfg\<rparr>\<rparr>"

definition add_errors :: "nat \<Rightarrow> State \<Rightarrow> State" where
  "add_errors n s = s\<lparr>errorCount := errorCount s + n\<rparr>"

definition add_merged :: "nat \<Rightarrow> State \<Rightarrow> State" where
  "add_merged n s = s\<lparr>mergedCount := mergedCount s + n\<rparr>"

text \<open>
  The retry loop \<open>while (attempts < maxAttempts)\<close> for a batch of \<open>n\<close> transactions.
\<close>

function retry_loop :: "Env \<Rightarrow> Config \<Rightarrow> nat \<Rightarrow> nat \<Rightarrow> State \<Rightarrow> State" where
  "retry_loop env cfg n attempts s =
     (if attempts < maxAttempts then
        (case try_submit (relay env (sent s)) s of
           (Inr result, s1) \<Rightarrow> add_merged n s1
         | (Inl err, s1) \<Rightarrow>
             (case getRelayerBackoffMs err of
                Some backoffMs \<Rightarrow>
                  if isQuotaExhausted err then add_errors n (markExhausted cfg s1)
                  else if attempts + 1 < maxAttempts
                  then retry_loop env cfg n (attempts + 1) (sleep backoffMs s1)
                  else add_errors n s1
              | None \<Rightarrow> add_errors n s1))
      else s)"
  by pat_completeness auto
termination
  by (relation "measure (\<lambda>(env, cfg, n, attempts, s). maxAttempts - attempts)") auto

declare retry_loop.simps [simp del]

text \<open>
  One iteration of the loop over the batches, after its quota check. The batch is cut
  from the candidates and its transactions are built, which throws (\<open>Inl\<close>, with the
  state as it is) when a candidate does not encode: the exception leaves the loop and
  reaches the \<open>catch\<close> of the cycle. Otherwise the batch goes through the retry loop,
  and the delay follows every batch but the last.
\<close>

definition batch_body ::
  "Env \<Rightarrow> Config \<Rightarrow> MergeCandidate list \<Rightarrow> real \<Rightarrow> State \<Rightarrow> State + State" where
  "batch_body env cfg cs i s1 =
     (let batch = slice cs i (i + BATCH_SIZE cfg)
      in if list_all (encodes env) batch then
           (let s2 = retry_loop env cfg (length batch) 0 (s1\<lparr>built := built s1 @ [batch]\<rparr>)
            in Inr (if i + BATCH_SIZE cfg < real (length cs)
                    then sleep (Finite (REQUEST_DELAY_MS cfg)) s2 else s2))
         else Inl s1)"

text \<open>
  How the loop \<open>for (let i = 0; i < candidates.length; i += CONFIG.BATCH_SIZE)\<close> is left:
  at its end, by the \<open>break\<close> after a failed quota check, or by an exception. With a
  batch size that is not positive the loop may run forever, which is the value \<open>None\<close>.
\<close>

datatype Ending = Completed State | Stopped State | Threw State

fun end_state :: "Ending \<Rightarrow> State" where
  "end_state (Completed s) = s"
| "end_state (Stopped s) = s"
| "end_state (Threw s) = s"

partial_function (option) batch_loop ::
  "Env \<Rightarrow> Config \<Rightarrow> MergeCandidate list \<Rightarrow> real \<Rightarrow> State \<Rightarrow> Ending option" where
  "batch_loop env cfg cs i s =
     (if i < real (length cs) then
        (if fst (checkQuotaNow env cfg s) then
           (case batch_body env cfg cs i (snd (checkQuotaNow env cfg s)) of
              Inl s' \<Rightarrow> Some (Threw s')
            | Inr s' \<Rightarrow> batch_loop env cfg cs (i + BATCH_SIZE cfg) s')
         else Some (Stopped (snd (checkQuotaNow env cfg s))))
      else Some (Completed s))"

text \<open>
  One pass of the body of \<open>while (!isShuttingDown)\<close>. \<open>fetched\<close> is the answer of
  \<open>fetchMarkets\<close>, \<open>None\<close> when it throws. An exception ends the pass in the outer
  \<open>catch\<close>, which prints no summary; every pass ends with the sleep of the merge
  interval.
\<close>

definition scan_logged :: "ScanState \<Rightarrow> State \<Rightarrow> State" where
  "scan_logged sc s1 =
     s1\<lparr>logged := logged s1 @
           [ScanComplete (length (candidates sc)) (skippedZero sc) (skippedBelowMin sc)]\<rparr>"

definition phase2_start :: "ScanState \<Rightarrow> State \<Rightarrow> State" where
  "phase2_start sc s1 = (scan_logged sc s1)\<lparr>mergedCount := 0, errorCount := 0\<rparr>"

definition phase2_end :: "Ending \<Rightarrow> State" where
  "phase2_end e =
     (case e of
        Completed s \<Rightarrow> s\<lparr>logged := logged s @ [MergeCycleComplete (mergedCount s) (errorCount s)]\<rparr>
      | Stopped s \<Rightarrow> s\<lparr>logged := logged s @ [MergeCycleComplete (mergedCount s) (errorCount s)]\<rparr>
      | Threw s \<Rightarrow> s)"

definition cycle ::
  "Env \<Rightarrow> Config \<Rightarrow> MarketMetadata list option \<Rightarrow> (MarketMetadata \<Rightarrow> TokenBalance option)
     \<Rightarrow> State \<Rightarrow> State option" where
  "cycle env cfg fetched getTokenBalances s =
     (if fst (checkQuotaNow env cfg s) then
        (let s1 = snd (checkQuotaNow env cfg s) in
         case fetched of
           None \<Rightarrow> Some (sleep (Finite (MERGE_INTERVAL_MS cfg)) s1)
         | Some markets \<Rightarrow>
             (let sc = scan getTokenBalances cfg markets scan_start
              in if candidates sc = []
                 then Some (sleep (Finite (MERGE_INTERVAL_MS cfg)) (scan_logged sc s1))
                 else (case batch_loop env cfg (candidates sc) 0 (phase2_start sc s1) of
                         None \<Rightarrow> None
                       | Some e \<Rightarrow>
                           Some (sleep (Finite (MERGE_INTERVAL_MS cfg)) (phase2_end e)))))
      else Some (sleep (Finite (MERGE_INTERVAL_MS cfg)) (snd (checkQuotaNow env cfg s))))"

text \<open>The state in which \<open>main\<close> enters its loop: the tracker was initialised with the
  first clock value.\<close>

definition start_state :: "Env \<Rightarrow> State" where
  "start_state env =
     \<lparr>quotaTracker = \<lparr>callsThisHour = 0, hourStartTime = clock env 0\<rparr>,
      sent = 0, ticks = 1, slept = [], logged = [], built = [],
      mergedCount = 0, errorCount = 0\<rparr>"

section \<open>Classes of relay outcomes\<close>

text \<open>The call of \<open>relayer.execute\<close> returned a handle.\<close>

fun accepted :: "Outcome \<Rightarrow> bool" where
  "accepted (ExecuteThrows e) = False"
| "accepted (WaitThrows e) = True"
| "accepted WaitNull = True"
| "accepted (WaitResult r) = True"

text \<open>The error that an attempt raises, if it raises one from the relay.\<close>

fun raised :: "Outcome \<Rightarrow> RelayError option" where
  "raised (ExecuteThrows e) = Some e"
| "raised (WaitThrows e) = Some e"
| "raised WaitNull = None"
| "raised (WaitResult r) = None"

text \<open>A rate-limit error (HTTP 429) that does not carry the quota-exhaustion message.\<close>

definition rate_limited :: "Outcome \<Rightarrow> bool" where
  "rate_limited out =
     (case raised out of
        None \<Rightarrow> False
      | Some e \<Rightarrow> status e = Some 429 \<and> \<not> isQuotaExhausted e)"

text \<open>A rate-limit error whose \<open>data.error\<close> text contains \<open>0 units remaining\<close>.\<close>

definition exhaustion_signal :: "Outcome \<Rightarrow> bool" where
  "exhaustion_signal out =
     (case raised out of
        None \<Rightarrow> False
      | Some e \<Rightarrow> status e = Some 429 \<and> isQuotaExhausted e)"

text \<open>The call was accepted and \<open>wait()\<close> then raised a rate-limit error.\<close>

definition wait_rate_limited :: "Outcome \<Rightarrow> bool" where
  "wait_rate_limited out =
     (case out of
        ExecuteThrows e \<Rightarrow> False
      | WaitThrows e \<Rightarrow> status e = Some 429
      | WaitNull \<Rightarrow> False
      | WaitResult r \<Rightarrow> False)"

section \<open>Reachable states\<close>

text \<open>
  The states that the retry loop of a batch of \<open>n\<close> transactions passes through when it
  is entered with \<open>a\<close> attempts made and state \<open>s\<close>: the state at the head of the loop,
  the state after the \<open>try\<close> block of the attempt, the state in which the loop is left,
  and the states of the later attempts when the attempt ends in a retry.
\<close>

inductive retry_visits :: "Env \<Rightarrow> Config \<Rightarrow> nat \<Rightarrow> nat \<Rightarrow> State \<Rightarrow> State \<Rightarrow> bool"
  for env cfg n where
  at_attempt: "retry_visits env cfg n a s s"
| after_try: "a < maxAttempts \<Longrightarrow>
     retry_visits env cfg n a s (snd (try_submit (relay env (sent s)) s))"
| at_exit: "retry_visits env cfg n a s (retry_loop env cfg n a s)"
| retried: "a < maxAttempts \<Longrightarrow> try_submit (relay env (sent s)) s = (Inl err, s1) \<Longrightarrow>
     getRelayerBackoffMs err = Some backoffMs \<Longrightarrow> \<not> isQuotaExhausted err \<Longrightarrow>
     a + 1 < maxAttempts \<Longrightarrow>
     retry_visits env cfg n (a + 1) (sleep backoffMs s1) v \<Longrightarrow>
     retry_visits env cfg n a s v"

text \<open>
  The states that the loop over the batches passes through when it is entered with index
  \<open>i\<close> and state \<open>s\<close>: the state at the head of the iteration, the state after its quota
  check, the states of the retry loop of its batch, and the states of the later
  iterations.
\<close>

inductive batch_visits ::
  "Env \<Rightarrow> Config \<Rightarrow> MergeCandidate list \<Rightarrow> real \<Rightarrow> State \<Rightarrow> State \<Rightarrow> bool"
  for env cfg cs where
  at_batch: "batch_visits env cfg cs i s s"
| after_check: "i < real (length cs) \<Longrightarrow>
     batch_visits env cfg cs i s (snd (checkQuotaNow env cfg s))"
| in_retry: "i < real (length cs) \<Longrightarrow> fst (checkQuotaNow env cfg s) \<Longrightarrow>
     batch = slice cs i (i + BATCH_SIZE cfg) \<Longrightarrow> list_all (encodes env) batch \<Longrightarrow>
     s1 = snd (checkQuotaNow env cfg s) \<Longrightarrow>
     retry_visits env cfg (length batch) 0 (s1\<lparr>built := built s1 @ [batch]\<rparr>) v \<Longrightarrow>
     batch_visits env cfg cs i s v"
| later_batch: "i < real (length cs) \<Longrightarrow> fst (checkQuotaNow env cfg s) \<Longrightarrow>
     batch_body env cfg cs i (snd (checkQuotaNow env cfg s)) = Inr s' \<Longrightarrow>
     batch_visits env cfg cs (i + BATCH_SIZE cfg) s' v \<Longrightarrow>
     batch_visits env cfg cs i s v"

text \<open>
  The states in which the process stands at the head of its \<open>while\<close> loop: the start
  state, and every state that one more pass of the loop body ends in, whatever
  \<open>fetchMarkets\<close> and the balance reads answer in that pass.
\<close>

inductive loop_head :: "Env \<Rightarrow> Config \<Rightarrow> State \<Rightarrow> bool" for env cfg where
  start: "loop_head env cfg (start_state env)"
| pass: "loop_head env cfg s \<Longrightarrow> cycle env cfg fetched getTokenBalances s = Some s' \<Longrightarrow>
           loop_head env cfg s'"

text \<open>
  The reachable states: the states at the head of the main loop and the states that a
  pass goes through, whether the pass comes to an end or not.
\<close>

inductive reachable :: "Env \<Rightarrow> Config \<Rightarrow> State \<Rightarrow> bool" for env cfg where
  at_head: "loop_head env cfg s \<Longrightarrow> reachable env cfg s"
| checked: "loop_head env cfg s \<Longrightarrow> reachable env cfg (snd (checkQuotaNow env cfg s))"
| scanned: "loop_head env cfg s \<Longrightarrow> fst (checkQuotaNow env cfg s) \<Longrightarrow>
     sc = scan getTokenBalances cfg markets scan_start \<Longrightarrow>
     reachable env cfg (scan_logged sc (snd (checkQuotaNow env cfg s)))"
| in_phase2: "loop_head env cfg s \<Longrightarrow> fst (checkQuotaNow env cfg s) \<Longrightarrow>
     sc = scan getTokenBalances cfg markets scan_start \<Longrightarrow> candidates sc \<noteq> [] \<Longrightarrow>
     batch_visits env cfg (candidates sc) 0 (phase2_start sc (snd (checkQuotaNow env cfg s))) v \<Longrightarrow>
     reachable env cfg v"
| summed: "loop_head env cfg s \<Longrightarrow> fst (checkQuotaNow env cfg s) \<Longrightarrow>
     sc = scan getTokenBalances cfg markets scan_start \<Longrightarrow> candidates sc \<noteq> [] \<Longrightarrow>
     batch_loop env cfg (candidates sc) 0 (phase2_start sc (snd (checkQuotaNow env cfg s))) = Some e \<Longrightarrow>
     reachable env cfg (phase2_end e)"


section \<open>Concrete configurations and environments\<close>

text \<open>The defaults of the configuration module.\<close>

definition default_config :: Config where
  "default_config =
     \<lparr>MERGE_INTERVAL_MS = 1800000, REQUEST_DELAY_MS = 5000, MIN_MERGE_AMOUNT = 10000000,
      BATCH_SIZE = 10, HOURLY_QUOTA_LIMIT = 20\<rparr>"

definition small_min_config :: Config where
  "small_min_config = default_config\<lparr>MIN_MERGE_AMOUNT := 10\<rparr>"

definition one_by_one_config :: Config where
  "one_by_one_config = small_min_config\<lparr>BATCH_SIZE := 1\<rparr>"

definition pairs_config :: Config where
  "pairs_config = small_min_config\<lparr>BATCH_SIZE := 2\<rparr>"

definition tiny_limit_config :: Config where
  "tiny_limit_config = one_by_one_config\<lparr>HOURLY_QUOTA_LIMIT := 1\<rparr>"

definition limit_two_config :: Config where
  "limit_two_config = one_by_one_config\<lparr>HOURLY_QUOTA_LIMIT := 2\<rparr>"

definition half_limit_config :: Config where
  "half_limit_config = one_by_one_config\<lparr>HOURLY_QUOTA_LIMIT := 5 / 2\<rparr>"

definition half_batch_config :: Config where
  "half_batch_config = small_min_config\<lparr>BATCH_SIZE := 3 / 2\<rparr>"

definition negative_limit_config :: Config where
  "negative_limit_config = default_config\<lparr>HOURLY_QUOTA_LIMIT := - 1\<rparr>"

definition rate_limit_error :: RelayError where
  "rate_limit_error =
     \<lparr>status = Some 429, data_error = Some ''quota exceeded, resets in 12 seconds'',
      error = None, message = None\<rparr>"

definition server_error :: RelayError where
  "server_error =
     \<lparr>status = Some 500, data_error = None, error = None,
      message = Some ''internal server error''\<rparr>"

definition exhausted_error :: RelayError where
  "exhausted_error =
     \<lparr>status = Some 429,
      data_error = Some ''quota exceeded: 0 units remaining, resets in 1 seconds'',
      error = None, message = None\<rparr>"

definition plain_429 :: RelayError where
  "plain_429 =
     \<lparr>status = Some 429, data_error = None, error = None,
      message = Some ''Too Many Requests''\<rparr>"

definition hint_error :: RelayError where
  "hint_error =
     \<lparr>status = Some 429, data_error = None, error = None,
      message = Some ''resets in 12 seconds''\<rparr>"

definition far_reset_error :: RelayError where
  "far_reset_error =
     \<lparr>status = Some 429, data_error = Some ''resets in 9007199254740993 seconds'',
      error = None, message = None\<rparr>"

definition shadowed_hint_error :: RelayError where
  "shadowed_hint_error =
     \<lparr>status = Some 429, data_error = Some ''rate limited'', error = None,
      message = Some ''resets in 12 seconds''\<rparr>"

definition failed_result :: RelayerResult where
  "failed_result = \<lparr>state = ''STATE_FAILED'', transactionHash = None\<rparr>"

definition mined_result :: RelayerResult where
  "mined_result = \<lparr>state = ''STATE_MINED'', transactionHash = Some ''0x1234''\<rparr>"

text \<open>The first call succeeds, every later call is throttled.\<close>

definition late_throttling_relay :: "nat \<Rightarrow> Outcome" where
  "late_throttling_relay k =
     (if k = 0 then WaitResult mined_result else ExecuteThrows rate_limit_error)"

definition rejecting_relay :: "nat \<Rightarrow> Outcome" where
  "rejecting_relay k = ExecuteThrows server_error"

definition failing_relay :: "nat \<Rightarrow> Outcome" where
  "failing_relay k = WaitResult failed_result"

definition mining_relay :: "nat \<Rightarrow> Outcome" where
  "mining_relay k = WaitResult mined_result"

definition silent_relay :: "nat \<Rightarrow> Outcome" where
  "silent_relay k = WaitNull"



text \<open>The first call is accepted and its \<open>wait()\<close> is throttled; later calls succeed.\<close>

definition throttled_wait_relay :: "nat \<Rightarrow> Outcome" where
  "throttled_wait_relay k =
     (if k = 0 then WaitThrows rate_limit_error else WaitResult mined_result)"

text \<open>The first call is accepted and its \<open>wait()\<close> raises the exhaustion signal.\<close>

definition exhausted_wait_relay :: "nat \<Rightarrow> Outcome" where
  "exhausted_wait_relay k = WaitThrows exhausted_error"

definition still_clock :: "nat \<Rightarrow> int" where
  "still_clock k = 0"


text \<open>
  Condition identifiers of 32 bytes, written as \<open>0x\<close> and 64 hexadecimal digits; the
  encoder of the concrete environments accepts exactly these.
\<close>

definition is_hex_digit :: "char \<Rightarrow> bool" where
  "is_hex_digit c =
     (let n = of_char c :: nat
      in (48 \<le> n \<and> n \<le> 57) \<or> (65 \<le> n \<and> n \<le> 70) \<or> (97 \<le> n \<and> n \<le> 102))"

definition bytes32_hex :: "string \<Rightarrow> bool" where
  "bytes32_hex s = (take 2 s = ''0x'' \<and> length s = 66 \<and> list_all is_hex_digit (drop 2 s))"

definition encodes_bytes32 :: "MergeCandidate \<Rightarrow> bool" where
  "encodes_bytes32 c = bytes32_hex (conditionId (market c))"

definition late_throttling_env :: Env where
  "late_throttling_env =
     \<lparr>relay = late_throttling_relay, clock = still_clock, encodes = encodes_bytes32\<rparr>"

definition rejecting_env :: Env where
  "rejecting_env = \<lparr>relay = rejecting_relay, clock = still_clock, encodes = encodes_bytes32\<rparr>"

definition failing_env :: Env where
  "failing_env = \<lparr>relay = failing_relay, clock = still_clock, encodes = encodes_bytes32\<rparr>"

definition mining_env :: Env where
  "mining_env = \<lparr>relay = mining_relay, clock = still_clock, encodes = encodes_bytes32\<rparr>"

definition silent_env :: Env where
  "silent_env = \<lparr>relay = silent_relay, clock = still_clock, encodes = encodes_bytes32\<rparr>"



definition exhausted_wait_env :: Env where
  "exhausted_wait_env =
     \<lparr>relay = exhausted_wait_relay, clock = still_clock, encodes = encodes_bytes32\<rparr>"

definition throttled_wait_env :: Env where
  "throttled_wait_env =
     \<lparr>relay = throttled_wait_relay, clock = still_clock, encodes = encodes_bytes32\<rparr>"

definition full_tracker :: QuotaTracker where
  "full_tracker = \<lparr>callsThisHour = 20, hourStartTime = 0\<rparr>"

definition market_a :: MarketMetadata where
  "market_a =
     \<lparr>yesTokenId = ''101'', noTokenId = ''102'',
      conditionId = ''0xaaaaaaaaaaaaaaaaaaaaaaaaaaaaaaaaaaaaaaaaaaaaaaaaaaaaaaaaaaaaaaaa'',
      marketSlug = Some ''btc-above-100k''\<rparr>"

definition market_b :: MarketMetadata where
  "market_b =
     \<lparr>yesTokenId = ''201'', noTokenId = ''202'',
      conditionId = ''0xbbbbbbbbbbbbbbbbbbbbbbbbbbbbbbbbbbbbbbbbbbbbbbbbbbbbbbbbbbbbbbbb'',
      marketSlug = None\<rparr>"

definition market_c :: MarketMetadata where
  "market_c =
     \<lparr>yesTokenId = ''301'', noTokenId = ''302'',
      conditionId = ''0xcccccccccccccccccccccccccccccccccccccccccccccccccccccccccccccccc'',
      marketSlug = None\<rparr>"

definition candidate_a :: MergeCandidate where
  "candidate_a = \<lparr>market = market_a, minBalance = 15\<rparr>"

definition candidate_b :: MergeCandidate where
  "candidate_b = \<lparr>market = market_b, minBalance = 15\<rparr>"

definition candidate_c :: MergeCandidate where
  "candidate_c = \<lparr>market = market_c, minBalance = 15\<rparr>"

definition reader_5_3 :: "MarketMetadata \<Rightarrow> TokenBalance option" where
  "reader_5_3 m = Some \<lparr>yesBalance = 5, noBalance = 3\<rparr>"

definition reader_0_7 :: "MarketMetadata \<Rightarrow> TokenBalance option" where
  "reader_0_7 m = Some \<lparr>yesBalance = 0, noBalance = 7\<rparr>"

definition reader_20_15 :: "MarketMetadata \<Rightarrow> TokenBalance option" where
  "reader_20_15 m = Some \<lparr>yesBalance = 20, noBalance = 15\<rparr>"


definition mixed_reader :: "MarketMetadata \<Rightarrow> TokenBalance option" where
  "mixed_reader m = (if m = market_a then Some \<lparr>yesBalance = 20, noBalance = 15\<rparr> else None)"

text \<open>The states in which three runs of one pass end.\<close>

definition overdrawn_state :: State where
  "overdrawn_state =
     \<lparr>quotaTracker = \<lparr>callsThisHour = 2, hourStartTime = 0\<rparr>,
      sent = 2, ticks = 3, slept = [Finite 17000, Finite 1800000],
      logged = [ScanComplete 1 0 0, MergeCycleComplete 1 0],
      built = [ [candidate_a] ], mergedCount = 1, errorCount = 0\<rparr>"

definition fractional_state :: State where
  "fractional_state =
     \<lparr>quotaTracker = \<lparr>callsThisHour = 3, hourStartTime = 0\<rparr>,
      sent = 3, ticks = 5, slept = [Finite 5000, Finite 5000, Finite 1800000],
      logged = [ScanComplete 3 0 0, MergeCycleComplete 3 0],
      built = [ [candidate_a], [candidate_b], [candidate_c] ],
      mergedCount = 3, errorCount = 0\<rparr>"

definition mixed_state :: State where
  "mixed_state =
     \<lparr>quotaTracker = \<lparr>callsThisHour = 1, hourStartTime = 0\<rparr>,
      sent = 1, ticks = 3, slept = [Finite 1800000],
      logged = [ScanComplete 1 0 0, MergeCycleComplete 1 0],
      built = [ [candidate_a] ], mergedCount = 1, errorCount = 0\<rparr>"

section \<open>Quota tracker properties\<close>

text \<open>
  C8 (as amended). \<open>checkAndUpdateQuota\<close> returns false when the counter has reached the
  limit and less than one hour has passed since the window start. When at least one hour
  has passed it sets the counter to 0 and the window start to \<open>now\<close> before the check,
  whatever the counter and the limit are; it then returns true exactly when the
  configured limit is greater than 0, and an increment that follows gives 1.
\<close>

theorem checkAndUpdateQuota_window:
  "(callsThisHour q \<ge> HOURLY_QUOTA_LIMIT cfg \<and> now - hourStartTime q < hourMs
      \<longrightarrow> \<not> fst (checkAndUpdateQuota cfg now q))
   \<and> (now - hourStartTime q \<ge> hourMs
      \<longrightarrow> snd (checkAndUpdateQuota cfg now q) = q\<lparr>callsThisHour := 0, hourStartTime := now\<rparr>
         \<and> fst (checkAndUpdateQuota cfg now q) = (0 < HOURLY_QUOTA_LIMIT cfg)
         \<and> callsThisHour (incrementQuota (snd (checkAndUpdateQuota cfg now q))) = 1)"
  by (simp add: checkAndUpdateQuota_def incrementQuota_def Let_def)

theorem checkAndUpdateQuota_window_witness:
  "(HOURLY_QUOTA_LIMIT default_config \<le> callsThisHour full_tracker
      \<and> 1000 - hourStartTime full_tracker < hourMs
      \<and> \<not> fst (checkAndUpdateQuota default_config 1000 full_tracker))
   \<and> (hourMs \<le> 3600000 - hourStartTime full_tracker
      \<and> checkAndUpdateQuota default_config 3600000 full_tracker
           = (True, full_tracker\<lparr>callsThisHour := 0, hourStartTime := 3600000\<rparr>)
      \<and> callsThisHour
           (incrementQuota (snd (checkAndUpdateQuota default_config 3600000 full_tracker))) = 1)"
  using checkAndUpdateQuota_window [where cfg = default_config and q = full_tracker and now = 1000]
        checkAndUpdateQuota_window [where cfg = default_config and q = full_tracker and now = 3600000]
  by (simp add: default_config_def full_tracker_def hourMs_def incrementQuota_def
      prod_eq_iff)

text \<open>
  The claim as it is written fails: with the limit set to -1, an hour after the window
  start the call resets the tracker and returns false.
\<close>

theorem checkAndUpdateQuota_negative_limit_counterexample:
  "hourMs \<le> 3600000 - hourStartTime full_tracker
   \<and> checkAndUpdateQuota negative_limit_config 3600000 full_tracker
       = (False, \<lparr>callsThisHour = 0, hourStartTime = 3600000\<rparr>)"
  by (simp add: checkAndUpdateQuota_def negative_limit_config_def default_config_def
      full_tracker_def hourMs_def)

section \<open>One submission attempt\<close>

lemma try_submit_sent: "sent (snd (try_submit out s)) = sent s + 1"
  by (simp add: try_submit_def Let_def split: Outcome.split)

lemma try_submit_counters:
  "mergedCount (snd (try_submit out s)) = mergedCount s"
  "errorCount (snd (try_submit out s)) = errorCount s"
  by (simp_all add: try_submit_def Let_def split: Outcome.split)

lemma try_submit_calls:
  "callsThisHour (quotaTracker (snd (try_submit out s)))
     = callsThisHour (quotaTracker s) + (if accepted out then 1 else 0)"
  by (cases out) (simp_all add: try_submit_def Let_def incrementQuota_def)

lemma try_submit_keeps:
  "ticks (snd (try_submit out s)) = ticks s"
  "slept (snd (try_submit out s)) = slept s"
  "logged (snd (try_submit out s)) = logged s"
  "built (snd (try_submit out s)) = built s"
  "hourStartTime (quotaTracker (snd (try_submit out s))) = hourStartTime (quotaTracker s)"
  by (simp_all add: try_submit_def Let_def incrementQuota_def split: Outcome.split)

lemma try_submit_raised:
  "raised out = Some e \<Longrightarrow> fst (try_submit out s) = Inl e"
  by (cases out) (simp_all add: try_submit_def Let_def)

lemma backoff_429: "status e = Some 429 \<Longrightarrow> \<exists>b. getRelayerBackoffMs e = Some b"
  by (simp add: getRelayerBackoffMs_def split: option.split)

lemma backoff_not_429: "status e \<noteq> Some 429 \<Longrightarrow> getRelayerBackoffMs e = None"
  by (simp add: getRelayerBackoffMs_def)

lemma backoff_Some_429: "getRelayerBackoffMs e = Some b \<Longrightarrow> status e = Some 429"
  by (simp add: getRelayerBackoffMs_def split: if_splits)

lemma backoff_no_result: "getRelayerBackoffMs no_result_error = None"
  by (simp add: getRelayerBackoffMs_def no_result_error_def)

text \<open>The \<open>catch\<close> block applies the override exactly on an exhaustion signal.\<close>

lemma exhaustion_signal_iff:
  assumes "try_submit out s = (res, s1)"
  shows "exhaustion_signal out \<longleftrightarrow>
           (\<exists>err b. res = Inl err \<and> getRelayerBackoffMs err = Some b \<and> isQuotaExhausted err)"
proof (cases out)
  case (ExecuteThrows e)
  with assms have "res = Inl e" by (auto simp: try_submit_def Let_def)
  with ExecuteThrows show ?thesis
    using backoff_429 [of e] backoff_Some_429 [of e]
    by (auto simp: exhaustion_signal_def)
next
  case (WaitThrows e)
  with assms have "res = Inl e" by (auto simp: try_submit_def Let_def)
  with WaitThrows show ?thesis
    using backoff_429 [of e] backoff_Some_429 [of e]
    by (auto simp: exhaustion_signal_def)
next
  case WaitNull
  with assms have "res = Inl no_result_error" by (auto simp: try_submit_def Let_def)
  with WaitNull show ?thesis
    by (simp add: exhaustion_signal_def backoff_no_result)
next
  case (WaitResult r)
  with assms have "res = Inr r" by (auto simp: try_submit_def Let_def)
  with WaitResult show ?thesis by (simp add: exhaustion_signal_def)
qed

section \<open>The retry loop\<close>

lemma retry_loop_done: "\<not> attempts < maxAttempts \<Longrightarrow> retry_loop env cfg n attempts s = s"
  by (simp add: retry_loop.simps)

lemma retry_loop_result:
  assumes "attempts < maxAttempts" and "relay env (sent s) = WaitResult r"
  shows "retry_loop env cfg n attempts s
           = add_merged n (s\<lparr>sent := sent s + 1,
                              quotaTracker := incrementQuota (quotaTracker s)\<rparr>)"
  using assms by (simp add: retry_loop.simps [of env cfg n attempts s] try_submit_def)

lemma retry_loop_null:
  assumes "attempts < maxAttempts" and "relay env (sent s) = WaitNull"
  shows "retry_loop env cfg n attempts s
           = add_errors n (s\<lparr>sent := sent s + 1,
                              quotaTracker := incrementQuota (quotaTracker s)\<rparr>)"
  using assms
  by (simp add: retry_loop.simps [of env cfg n attempts s] try_submit_def backoff_no_result)

text \<open>
  C10. When the submission succeeds and \<open>wait()\<close> resolves to a result, the whole batch is
  added to the merged count and nothing to the error count; the final state does not
  depend on the result, so its \<open>state\<close> field is not looked at. Only a missing result is
  an error: then the whole batch is added to the error count.
\<close>

theorem merged_whatever_the_result_state:
  "attempts < maxAttempts \<Longrightarrow>
     (relay env (sent s) = WaitResult r \<longrightarrow>
        retry_loop env cfg n attempts s
          = s\<lparr>sent := sent s + 1, quotaTracker := incrementQuota (quotaTracker s),
              mergedCount := mergedCount s + n\<rparr>)
   \<and> (relay env (sent s) = WaitNull \<longrightarrow>
        retry_loop env cfg n attempts s
          = s\<lparr>sent := sent s + 1, quotaTracker := incrementQuota (quotaTracker s),
              errorCount := errorCount s + n\<rparr>)"
  by (simp add: retry_loop_result retry_loop_null add_merged_def add_errors_def)

theorem merged_whatever_the_result_state_witness:
  "(0 < maxAttempts
      \<and> relay failing_env (sent (start_state failing_env)) = WaitResult failed_result
      \<and> state failed_result = ''STATE_FAILED''
      \<and> mergedCount (retry_loop failing_env default_config 7 0 (start_state failing_env)) = 7
      \<and> errorCount (retry_loop failing_env default_config 7 0 (start_state failing_env)) = 0)
   \<and> (relay silent_env (sent (start_state silent_env)) = WaitNull
      \<and> mergedCount (retry_loop silent_env default_config 7 0 (start_state silent_env)) = 0
      \<and> errorCount (retry_loop silent_env default_config 7 0 (start_state silent_env)) = 7)"
  using merged_whatever_the_result_state
          [where attempts = 0 and env = failing_env and s = "start_state failing_env"
             and r = failed_result and cfg = default_config and n = 7]
        merged_whatever_the_result_state
          [where attempts = 0 and env = silent_env and s = "start_state silent_env"
             and r = failed_result and cfg = default_config and n = 7]
  by (simp add: maxAttempts_def failing_env_def failing_relay_def silent_env_def
      silent_relay_def start_state_def failed_result_def)

text \<open>One unfolding of the loop, for each way an attempt can end.\<close>

lemma retry_loop_unfold:
  assumes "a < maxAttempts" and "try_submit (relay env (sent s)) s = (res, s1)"
  shows "retry_loop env cfg n a s =
           (case res of
              Inr r \<Rightarrow> add_merged n s1
            | Inl err \<Rightarrow>
                (case getRelayerBackoffMs err of
                   None \<Rightarrow> add_errors n s1
                 | Some b \<Rightarrow>
                     if isQuotaExhausted err then add_errors n (markExhausted cfg s1)
                     else if a + 1 < maxAttempts
                     then retry_loop env cfg n (a + 1) (sleep b s1)
                     else add_errors n s1))"
  using assms by (subst retry_loop.simps) (simp split: sum.split option.split)

lemma rate_limited_step:
  assumes "rate_limited (relay env (sent s))" and "attempts < maxAttempts"
  shows "\<exists>b. retry_loop env cfg n attempts s =
               (if attempts + 1 < maxAttempts
                then retry_loop env cfg n (attempts + 1)
                       (sleep b (snd (try_submit (relay env (sent s)) s)))
                else add_errors n (snd (try_submit (relay env (sent s)) s)))"
proof -
  from assms(1) obtain e where e: "raised (relay env (sent s)) = Some e"
      "status e = Some 429" "\<not> isQuotaExhausted e"
    by (auto simp: rate_limited_def split: option.splits)
  from backoff_429 [OF e(2)] obtain b where b: "getRelayerBackoffMs e = Some b" ..
  have "fst (try_submit (relay env (sent s)) s) = Inl e"
    by (rule try_submit_raised [OF e(1)])
  then obtain s1 where s1: "try_submit (relay env (sent s)) s = (Inl e, s1)"
    by (metis prod.collapse)
  from retry_loop_unfold [OF assms(2) s1, of cfg n] e(3) b
  have "retry_loop env cfg n attempts s =
               (if attempts + 1 < maxAttempts
                then retry_loop env cfg n (attempts + 1) (sleep b s1)
                else add_errors n s1)"
    by simp
  moreover from s1 have "s1 = snd (try_submit (relay env (sent s)) s)" by simp
  ultimately show ?thesis by blast
qed

lemma rate_limited_from:
  "\<forall>j<maxAttempts - a. rate_limited (relay env (sent s + j)) \<Longrightarrow> a < maxAttempts \<Longrightarrow>
     sent (retry_loop env cfg n a s) = sent s + (maxAttempts - a)
   \<and> errorCount (retry_loop env cfg n a s) = errorCount s + n
   \<and> mergedCount (retry_loop env cfg n a s) = mergedCount s"
proof (induction "maxAttempts - a" arbitrary: a s)
  case 0
  then show ?case by simp
next
  case (Suc d)
  from Suc.prems have "rate_limited (relay env (sent s))" by force
  from rate_limited_step [OF this Suc.prems(2), of cfg n]
  obtain b where unfold: "retry_loop env cfg n a s =
       (if a + 1 < maxAttempts
        then retry_loop env cfg n (a + 1) (sleep b (snd (try_submit (relay env (sent s)) s)))
        else add_errors n (snd (try_submit (relay env (sent s)) s)))"
    by blast
  define s1 where "s1 = sleep b (snd (try_submit (relay env (sent s)) s))"
  have s1: "sent s1 = sent s + 1" "errorCount s1 = errorCount s" "mergedCount s1 = mergedCount s"
    by (simp_all add: s1_def sleep_def try_submit_sent try_submit_counters)
  show ?case
  proof (cases "a + 1 < maxAttempts")
    case True
    with Suc.hyps(2) have d: "d = maxAttempts - (a + 1)" by simp
    have "\<forall>j<maxAttempts - (a + 1). rate_limited (relay env (sent s1 + j))"
    proof (intro allI impI)
      fix j assume "j < maxAttempts - (a + 1)"
      then have "Suc j < maxAttempts - a" by simp
      with Suc.prems(1) have "rate_limited (relay env (sent s + Suc j))" by blast
      then show "rate_limited (relay env (sent s1 + j))" by (simp add: s1)
    qed
    from Suc.hyps(1) [OF d this True] True unfold s1
    show ?thesis by (simp add: s1_def)
  next
    case False
    with Suc.prems have "maxAttempts - a = 1" by simp
    with False unfold show ?thesis
      by (simp add: add_errors_def try_submit_sent try_submit_counters)
  qed
qed

text \<open>
  C4. When every submission of a batch raises a rate-limit error (status 429) that does
  not carry the quota-exhaustion message, the retry loop of the batch of \<open>n\<close>
  transactions makes exactly \<open>maxAttempts = 3\<close> submissions and then gives the batch up:
  the error count grows by \<open>n\<close> and the merged count stays. The submissions of the batch
  are the calls \<open>sent s\<close>, \<open>sent s + 1\<close> and \<open>sent s + 2\<close>; nothing is asked of the calls
  before or after them.
\<close>

theorem retry_bound:
  assumes "\<forall>j<maxAttempts. rate_limited (relay env (sent s + j))"
  shows "maxAttempts = 3
       \<and> sent (retry_loop env cfg n 0 s) = sent s + maxAttempts
       \<and> errorCount (retry_loop env cfg n 0 s) = errorCount s + n
       \<and> mergedCount (retry_loop env cfg n 0 s) = mergedCount s"
  using rate_limited_from [of 0 env s cfg n] assms by (simp add: maxAttempts_def)

theorem retry_bound_witness:
  "\<not> rate_limited (relay late_throttling_env 0)
   \<and> rate_limited (relay late_throttling_env 1)
   \<and> rate_limited (relay late_throttling_env 2)
   \<and> rate_limited (relay late_throttling_env 3)
   \<and> sent (retry_loop late_throttling_env default_config 4 0
             ((start_state late_throttling_env)\<lparr>sent := 1\<rparr>)) = 4
   \<and> errorCount (retry_loop late_throttling_env default_config 4 0
             ((start_state late_throttling_env)\<lparr>sent := 1\<rparr>)) = 4
   \<and> mergedCount (retry_loop late_throttling_env default_config 4 0
             ((start_state late_throttling_env)\<lparr>sent := 1\<rparr>)) = 0"
proof -
  have r: "rate_limited (relay late_throttling_env k) \<longleftrightarrow> k \<noteq> 0" for k
    by (simp add: rate_limited_def late_throttling_env_def late_throttling_relay_def
        rate_limit_error_def isQuotaExhausted_def)
  then have "\<forall>j<maxAttempts.
      rate_limited (relay late_throttling_env (sent ((start_state late_throttling_env)\<lparr>sent := 1\<rparr>) + j))"
    by simp
  from retry_bound [OF this, of default_config 4] r
  show ?thesis by (simp add: start_state_def maxAttempts_def)
qed

section \<open>The counter over the retry loop\<close>

lemma retry_loop_sent_grows: "a < maxAttempts \<Longrightarrow> sent s < sent (retry_loop env cfg n a s)"
proof (induction env cfg n a s rule: retry_loop.induct)
  case (1 env cfg n attempts s)
  obtain res s1 where ts: "try_submit (relay env (sent s)) s = (res, s1)"
    by (cases "try_submit (relay env (sent s)) s")
  then have "s1 = snd (try_submit (relay env (sent s)) s)" by simp
  then have s1: "sent s1 = sent s + 1" by (simp add: try_submit_sent)
  show ?case
  proof (cases "\<exists>err b. res = Inl err \<and> getRelayerBackoffMs err = Some b
      \<and> \<not> isQuotaExhausted err \<and> attempts + 1 < maxAttempts")
    case True
    then obtain err b where c: "res = Inl err" "getRelayerBackoffMs err = Some b"
        "\<not> isQuotaExhausted err" "attempts + 1 < maxAttempts"
      by blast
    from 1(1) [OF 1(2) ts [symmetric] c(1) c(2) c(3) c(4) c(4)] s1
    have "sent s < sent (retry_loop env cfg n (attempts + 1) (sleep b s1))"
      by (simp add: sleep_def)
    with retry_loop_unfold [OF 1(2) ts, of cfg n] c show ?thesis by simp
  next
    case False
    with retry_loop_unfold [OF 1(2) ts, of cfg n] s1 show ?thesis
      by (auto simp: add_merged_def add_errors_def markExhausted_def
          split: sum.splits option.splits)
  qed
qed

lemma retry_loop_counter:
  "a < maxAttempts \<Longrightarrow>
     callsThisHour (quotaTracker (retry_loop env cfg n a s))
       = (if exhaustion_signal (relay env (sent (retry_loop env cfg n a s) - 1))
          then HOURLY_QUOTA_LIMIT cfg
          else callsThisHour (quotaTracker s)
                + real (length (filter (\<lambda>k. accepted (relay env k))
                                  [sent s ..< sent (retry_loop env cfg n a s)])))"
proof (induction env cfg n a s rule: retry_loop.induct)
  case (1 env cfg n attempts s)
  obtain res s1 where ts: "try_submit (relay env (sent s)) s = (res, s1)"
    by (cases "try_submit (relay env (sent s)) s")
  then have s1_eq: "s1 = snd (try_submit (relay env (sent s)) s)" by simp
  then have s1: "sent s1 = sent s + 1"
      "callsThisHour (quotaTracker s1)
         = callsThisHour (quotaTracker s) + (if accepted (relay env (sent s)) then 1 else 0)"
    by (simp_all add: try_submit_sent try_submit_calls)
  note sig = exhaustion_signal_iff [OF ts]
  show ?case
  proof (cases "\<exists>err b. res = Inl err \<and> getRelayerBackoffMs err = Some b
      \<and> \<not> isQuotaExhausted err \<and> attempts + 1 < maxAttempts")
    case True
    then obtain err b where c: "res = Inl err" "getRelayerBackoffMs err = Some b"
        "\<not> isQuotaExhausted err" "attempts + 1 < maxAttempts"
      by blast
    define s' where "s' = retry_loop env cfg n (attempts + 1) (sleep b s1)"
    have unfold: "retry_loop env cfg n attempts s = s'"
      using retry_loop_unfold [OF 1(2) ts, of cfg n] c by (simp add: s'_def)
    have grows: "sent s + 1 < sent s'"
      using retry_loop_sent_grows [OF c(4), of "sleep b s1" env cfg n] s1(1)
      by (simp add: s'_def sleep_def)
    then have upt: "[sent s ..< sent s'] = sent s # [sent s + 1 ..< sent s']"
      by (simp add: upt_conv_Cons)
    from 1(1) [OF 1(2) ts [symmetric] c(1) c(2) c(3) c(4) c(4)]
    have "callsThisHour (quotaTracker s')
       = (if exhaustion_signal (relay env (sent s' - 1))
          then HOURLY_QUOTA_LIMIT cfg
          else callsThisHour (quotaTracker s1)
                + real (length (filter (\<lambda>k. accepted (relay env k)) [sent s + 1 ..< sent s'])))"
      by (simp add: s'_def sleep_def s1(1))
    with s1(2) upt unfold show ?thesis by simp
  next
    case False
    show ?thesis
    proof (cases "exhaustion_signal (relay env (sent s))")
      case True
      with sig obtain err b where "res = Inl err" "getRelayerBackoffMs err = Some b"
          "isQuotaExhausted err"
        by blast
      with retry_loop_unfold [OF 1(2) ts, of cfg n]
      have "retry_loop env cfg n attempts s = add_errors n (markExhausted cfg s1)" by simp
      with True s1(1) show ?thesis
        by (simp add: add_errors_def markExhausted_def)
    next
      case no: False
      with sig False retry_loop_unfold [OF 1(2) ts, of cfg n]
      have "retry_loop env cfg n attempts s = add_merged n s1
          \<or> retry_loop env cfg n attempts s = add_errors n s1"
        by (auto split: sum.splits option.splits)
      with no s1 show ?thesis
        by (auto simp: add_merged_def add_errors_def)
    qed
  qed
qed

text \<open>
  C1 (as amended). The retry loop of a batch makes at least one attempt, and every
  attempt calls \<open>relayer.execute\<close> once: the attempts are the calls from \<open>sent s\<close> up to the
  last one made. When the last attempt raised a rate-limit error with \<open>0 units
  remaining\<close> in \<open>data.error\<close>, the loop leaves the counter at the configured limit.
  Otherwise it leaves the counter at its value on entry plus the number of attempts whose
  call returned a handle: each of these adds exactly 1, whatever \<open>wait()\<close> then gives, an
  attempt whose call raised an error adds nothing, and a sleep does not touch the
  tracker.
\<close>

theorem counter_over_retry_loop:
  assumes "a < maxAttempts"
  shows "sent s < sent (retry_loop env cfg n a s)
       \<and> callsThisHour (quotaTracker (retry_loop env cfg n a s))
           = (if exhaustion_signal (relay env (sent (retry_loop env cfg n a s) - 1))
              then HOURLY_QUOTA_LIMIT cfg
              else callsThisHour (quotaTracker s)
                    + real (length (filter (\<lambda>k. accepted (relay env k))
                                      [sent s ..< sent (retry_loop env cfg n a s)])))
       \<and> quotaTracker (sleep ms s) = quotaTracker s"
  using retry_loop_sent_grows [OF assms] retry_loop_counter [OF assms]
  by (simp add: sleep_def)

section \<open>The reset hint\<close>

lemma strip_prefix_ci_iff:
  "strip_prefix_ci p s = Some rest \<longleftrightarrow> (\<exists>h. s = h @ rest \<and> same_ci h p)"
proof (induction p s rule: strip_prefix_ci.induct)
  case (1 s)
  show ?case by (auto simp: same_ci_def)
next
  case (2 p ps)
  show ?case by (auto simp: same_ci_def)
next
  case (3 p ps c cs)
  show ?case
  proof (cases "upper_code p = upper_code c")
    case False
    then show ?thesis
      by (auto simp: same_ci_def Cons_eq_append_conv)
  next
    case True
    have "(\<exists>h. c # cs = h @ rest \<and> same_ci h (p # ps))
        \<longleftrightarrow> (\<exists>h'. cs = h' @ rest \<and> same_ci h' ps)"
    proof
      assume "\<exists>h. c # cs = h @ rest \<and> same_ci h (p # ps)"
      then obtain h where h: "c # cs = h @ rest" "same_ci h (p # ps)" by blast
      from h(2) obtain h0 h' where "h = h0 # h'" "same_ci h' ps"
        by (auto simp: same_ci_def map_eq_Cons_conv)
      with h(1) show "\<exists>h'. cs = h' @ rest \<and> same_ci h' ps" by auto
    next
      assume "\<exists>h'. cs = h' @ rest \<and> same_ci h' ps"
      then obtain h' where "cs = h' @ rest" "same_ci h' ps" by blast
      with True have "c # cs = (c # h') @ rest \<and> same_ci (c # h') (p # ps)"
        by (simp add: same_ci_def)
      then show "\<exists>h. c # cs = h @ rest \<and> same_ci h (p # ps)" by blast
    qed
    with True 3 show ?thesis by simp
  qed
qed

lemma space_is_no_digit: "upper_code c = upper_code CHR '' '' \<Longrightarrow> \<not> is_digit c"
  by (auto simp: upper_code_def is_digit_def Let_def split: if_splits)

lemma digits_then_seconds:
  assumes "list_all is_digit ds" and "same_ci t '' seconds''"
  shows "takeWhile is_digit (ds @ t @ post) = ds"
    and "dropWhile is_digit (ds @ t @ post) = t @ post"
proof -
  from assms(2) obtain t0 ts where t: "t = t0 # ts" "upper_code t0 = upper_code CHR '' ''"
    by (auto simp: same_ci_def map_eq_Cons_conv)
  then have "\<not> is_digit t0" by (simp add: space_is_no_digit)
  with assms(1) t(1) show "takeWhile is_digit (ds @ t @ post) = ds"
    and "dropWhile is_digit (ds @ t @ post) = t @ post"
    by (simp_all add: list_all_iff takeWhile_append2 dropWhile_append2)
qed

lemma match_here_iff:
  "match_here s = Some ds \<longleftrightarrow> hint_at s 0 ds"
proof
  assume m: "match_here s = Some ds"
  then obtain r where r: "strip_prefix_ci ''resets in '' s = Some r"
    by (auto simp: match_here_def split: option.splits)
  with m have ds: "ds = takeWhile is_digit r" "ds \<noteq> []"
    by (auto simp: match_here_def Let_def split: option.splits if_splits)
  from m r ds obtain post where
    post: "strip_prefix_ci '' seconds'' (dropWhile is_digit r) = Some post"
    by (auto simp: match_here_def Let_def split: option.splits if_splits)
  from r obtain h where h: "s = h @ r" "same_ci h ''resets in ''"
    by (auto simp: strip_prefix_ci_iff)
  from post obtain t where t: "dropWhile is_digit r = t @ post" "same_ci t '' seconds''"
    by (auto simp: strip_prefix_ci_iff)
  have "r = takeWhile is_digit r @ dropWhile is_digit r" by simp
  with h(1) ds(1) t(1) have "s = h @ ds @ t @ post" by simp
  moreover from ds(1) have "list_all is_digit ds"
    by (auto simp: list_all_iff dest: set_takeWhileD)
  ultimately show "hint_at s 0 ds"
    using h(2) ds(2) t(2) by (auto simp: hint_at_def)
next
  assume "hint_at s 0 ds"
  then obtain r t post where h: "s = r @ ds @ t @ post" "same_ci r ''resets in ''"
      "ds \<noteq> []" "list_all is_digit ds" "same_ci t '' seconds''"
    by (auto simp: hint_at_def)
  from h(1,2) have 1: "strip_prefix_ci ''resets in '' s = Some (ds @ t @ post)"
    by (subst strip_prefix_ci_iff) blast
  from h(5) have 2: "strip_prefix_ci '' seconds'' (t @ post) = Some post"
    by (subst strip_prefix_ci_iff) blast
  from 1 2 h(3) digits_then_seconds [OF h(4,5), of post]
  show "match_here s = Some ds"
    by (simp add: match_here_def Let_def)
qed

lemma hint_at_drop: "hint_at s p ds \<longleftrightarrow> match_here (drop p s) = Some ds"
  by (simp add: match_here_iff hint_at_def)

lemma match_here_Nil: "match_here [] = None"
  by (simp add: match_here_def)

lemma regex_exec_first:
  "match_here (drop p s) = Some ds \<Longrightarrow> (\<forall>q<p. match_here (drop q s) = None) \<Longrightarrow>
     regex_exec s = Some ds"
proof (induction s arbitrary: p)
  case Nil
  then show ?case by (simp add: match_here_Nil)
next
  case (Cons c cs)
  show ?case
  proof (cases p)
    case 0
    with Cons.prems(1) show ?thesis by simp
  next
    case (Suc p')
    with Cons.prems(2) have none: "match_here (c # cs) = None" by force
    from Suc Cons.prems(1) have 1: "match_here (drop p' cs) = Some ds" by simp
    have 2: "\<forall>q<p'. match_here (drop q cs) = None"
    proof (intro allI impI)
      fix q assume "q < p'"
      with Suc have "Suc q < p" by simp
      with Cons.prems(2) have "match_here (drop (Suc q) (c # cs)) = None" by blast
      then show "match_here (drop q cs) = None" by simp
    qed
    from Cons.IH [OF 1 2] none show ?thesis by simp
  qed
qed

lemma regex_exec_Some:
  "regex_exec s = Some ds \<Longrightarrow>
     \<exists>p. match_here (drop p s) = Some ds \<and> (\<forall>q<p. match_here (drop q s) = None)"
proof (induction s)
  case Nil
  then show ?case by (simp add: match_here_Nil)
next
  case (Cons c cs)
  show ?case
  proof (cases "match_here (c # cs)")
    case (Some d)
    with Cons.prems have "match_here (drop 0 (c # cs)) = Some ds" by simp
    then show ?thesis by blast
  next
    case None
    with Cons.prems have "regex_exec cs = Some ds" by simp
    from Cons.IH [OF this] obtain p where p: "match_here (drop p cs) = Some ds"
        "\<forall>q<p. match_here (drop q cs) = None"
      by blast
    have "\<forall>q<Suc p. match_here (drop q (c # cs)) = None"
    proof (intro allI impI)
      fix q assume q: "q < Suc p"
      show "match_here (drop q (c # cs)) = None"
      proof (cases q)
        case 0
        with None show ?thesis by simp
      next
        case (Suc q')
        with q p(2) show ?thesis by simp
      qed
    qed
    moreover from p(1) have "match_here (drop (Suc p) (c # cs)) = Some ds" by simp
    ultimately show ?thesis by blast
  qed
qed

lemma regex_exec_None_iff:
  "regex_exec s = None \<longleftrightarrow> (\<forall>p. match_here (drop p s) = None)"
proof
  assume n: "regex_exec s = None"
  show "\<forall>p. match_here (drop p s) = None"
  proof (rule ccontr)
    assume "\<not> (\<forall>p. match_here (drop p s) = None)"
    then have "\<exists>p. match_here (drop p s) \<noteq> None" by blast
    then obtain p where p: "match_here (drop p s) \<noteq> None"
        "\<forall>q<p. \<not> match_here (drop q s) \<noteq> None"
      using exists_least_iff [of "\<lambda>p. match_here (drop p s) \<noteq> None"] by blast
    then obtain ds where "match_here (drop p s) = Some ds" by blast
    from regex_exec_first [OF this] p(2) n show False by simp
  qed
next
  assume a: "\<forall>p. match_here (drop p s) = None"
  show "regex_exec s = None"
  proof (cases "regex_exec s")
    case None
    then show ?thesis .
  next
    case (Some ds)
    from regex_exec_Some [OF this] a show ?thesis by simp
  qed
qed

section \<open>Doubles\<close>

lemma ulp_exp_small: "n < 2 ^ 53 \<Longrightarrow> ulp_exp n = 0"
  by (subst ulp_exp.simps) simp

lemma round_double_exact: "n < 2 ^ 53 \<Longrightarrow> round_double n = Finite (real n)"
proof -
  assume n: "n < 2 ^ 53"
  have "(2::nat) ^ 53 \<le> 2 ^ 1024" by (rule power_increasing) simp_all
  with n have "\<not> 2 ^ 1024 \<le> n" by linarith
  with n show ?thesis by (simp add: round_double_def ulp_exp_small)
qed

lemma js_add_nat: "js_add (Finite (real n)) k = round_double (n + k)"
  by simp

lemma js_mul_nat: "js_mul (Finite (real n)) k = round_double (n * k)"
  by simp

lemma backoff_exact:
  assumes "(N + 5) * 1000 < (2::nat) ^ 53"
  shows "js_mul (js_add (round_double N) 5) 1000 = Finite (real ((N + 5) * 1000))"
proof -
  from assms have 1: "N < 2 ^ 53" and 2: "N + 5 < 2 ^ 53" by simp_all
  have "js_add (round_double N) 5 = round_double (N + 5)"
    by (simp only: round_double_exact [OF 1] js_add_nat)
  also have "\<dots> = Finite (real (N + 5))" by (rule round_double_exact [OF 2])
  finally have "js_mul (js_add (round_double N) 5) 1000 = round_double ((N + 5) * 1000)"
    by (simp only: js_mul_nat)
  also have "\<dots> = Finite (real ((N + 5) * 1000))" by (rule round_double_exact [OF assms])
  finally show ?thesis .
qed

lemma first_text_iff: "first_text err m \<longleftrightarrow> error_text err = m"
  by (auto simp: first_text_def blank_def error_text_def or_else_def split: option.splits)

text \<open>
  C6 (as amended). An error whose status is not 429 has no backoff. For status 429, take
  as the text of the error the first of \<open>data.error\<close>, \<open>error\<close> and \<open>message\<close> that is a
  non-empty string. When the text holds a hint \<open>resets in N seconds\<close> (the first one, if
  there are several) and \<open>(N + 5) * 1000\<close> is below \<open>2^53\<close>, the backoff is
  \<open>(N + 5) * 1000\<close> milliseconds; when the text holds no hint, it is 60000 milliseconds.
\<close>

theorem backoff_by_error_class:
  "(status err \<noteq> Some 429 \<longrightarrow> getRelayerBackoffMs err = None)
   \<and> (status err = Some 429 \<and> first_text err m \<and> hint_at m p ds
        \<and> (\<forall>q<p. \<forall>ds'. \<not> hint_at m q ds') \<and> (decimal ds + 5) * 1000 < 2 ^ 53
      \<longrightarrow> getRelayerBackoffMs err = Some (Finite (real ((decimal ds + 5) * 1000))))
   \<and> (status err = Some 429 \<and> first_text err m \<and> (\<forall>p ds. \<not> hint_at m p ds)
      \<longrightarrow> getRelayerBackoffMs err = Some (Finite 60000))"
proof (intro conjI impI)
  assume "status err \<noteq> Some 429"
  then show "getRelayerBackoffMs err = None" by (rule backoff_not_429)
next
  assume a: "status err = Some 429 \<and> first_text err m \<and> hint_at m p ds
      \<and> (\<forall>q<p. \<forall>ds'. \<not> hint_at m q ds') \<and> (decimal ds + 5) * 1000 < 2 ^ 53"
  then have m: "error_text err = m" by (simp add: first_text_iff)
  from a have "match_here (drop p m) = Some ds"
    and "\<forall>q<p. match_here (drop q m) = None"
    by (auto simp: hint_at_drop)
  then have "regex_exec m = Some ds" by (rule regex_exec_first)
  with a m backoff_exact [of "decimal ds"]
  show "getRelayerBackoffMs err = Some (Finite (real ((decimal ds + 5) * 1000)))"
    by (simp add: getRelayerBackoffMs_def Number_def)
next
  assume a: "status err = Some 429 \<and> first_text err m \<and> (\<forall>p ds. \<not> hint_at m p ds)"
  then have m: "error_text err = m" by (simp add: first_text_iff)
  from a have "\<forall>p. match_here (drop p m) = None"
    by (auto simp: hint_at_drop)
  then have "regex_exec m = None" by (simp add: regex_exec_None_iff)
  with a m show "getRelayerBackoffMs err = Some (Finite 60000)"
    by (simp add: getRelayerBackoffMs_def)
qed

theorem backoff_by_error_class_witness:
  "(status server_error \<noteq> Some 429 \<and> getRelayerBackoffMs server_error = None)
   \<and> (status hint_error = Some 429 \<and> first_text hint_error ''resets in 12 seconds''
        \<and> hint_at ''resets in 12 seconds'' 0 ''12'' \<and> decimal ''12'' = 12
        \<and> getRelayerBackoffMs hint_error = Some (Finite 17000))
   \<and> (status plain_429 = Some 429 \<and> first_text plain_429 ''Too Many Requests''
        \<and> \<not> hint_at ''Too Many Requests'' 0 ''12''
        \<and> getRelayerBackoffMs plain_429 = Some (Finite 60000))"
proof -
  have s: "status server_error \<noteq> Some 429"
    by (simp add: server_error_def)
  have h: "status hint_error = Some 429" "first_text hint_error ''resets in 12 seconds''"
      "hint_at ''resets in 12 seconds'' 0 ''12''"
      "\<forall>q<0. \<forall>ds'. \<not> hint_at ''resets in 12 seconds'' q ds'"
    by (simp_all add: hint_error_def first_text_def blank_def hint_at_drop
        match_here_def upper_code_def is_digit_def)
  have "regex_exec ''Too Many Requests'' = None"
    by (simp add: match_here_def upper_code_def is_digit_def)
  then have "\<forall>p. match_here (drop p ''Too Many Requests'') = None"
    using regex_exec_None_iff by blast
  then have p: "status plain_429 = Some 429" "first_text plain_429 ''Too Many Requests''"
      "\<forall>p ds. \<not> hint_at ''Too Many Requests'' p ds"
    by (simp_all add: hint_at_drop plain_429_def first_text_def blank_def)
  have n: "decimal ''12'' = 12" "(decimal ''12'' + 5) * 1000 < 2 ^ 53"
    by (simp_all add: decimal_def)
  from backoff_by_error_class [where err = server_error and p = 0 and ds = "''12''"
        and m = "''resets in 12 seconds''"]
    backoff_by_error_class [where err = hint_error and p = 0 and ds = "''12''"
        and m = "''resets in 12 seconds''"]
    backoff_by_error_class [where err = plain_429 and p = 0 and ds = "''12''"
        and m = "''Too Many Requests''"]
    s h p n
  show ?thesis by simp
qed

lemma ulp_exp_step: "\<not> n < 2 ^ 53 \<Longrightarrow> ulp_exp n = Suc (ulp_exp (n div 2))"
  by (subst ulp_exp.simps) simp

lemma round_2_53_1: "round_double 9007199254740993 = Finite 9007199254740992"
proof -
  have "ulp_exp 9007199254740993 = 1"
    by (simp add: ulp_exp_step ulp_exp_small)
  then show ?thesis by (simp add: round_double_def)
qed

lemma round_2_53_5: "round_double 9007199254740997 = Finite 9007199254740996"
proof -
  have "ulp_exp 9007199254740997 = 1"
    by (simp add: ulp_exp_step ulp_exp_small)
  then show ?thesis by (simp add: round_double_def)
qed

lemma round_times_1000: "round_double 9007199254740996000 = Finite 9007199254740996096"
proof -
  have "ulp_exp 9007199254740996000 = 10"
    by (simp add: ulp_exp_step ulp_exp_small)
  then show ?thesis by (simp add: round_double_def)
qed

lemma far_reset_backoff:
  "getRelayerBackoffMs far_reset_error = Some (Finite 9007199254740996096)"
proof -
  have "regex_exec (error_text far_reset_error) = Some ''9007199254740993''"
    by (simp add: far_reset_error_def error_text_def or_else_def match_here_def
        upper_code_def is_digit_def)
  moreover have "decimal ''9007199254740993'' = 9007199254740993"
    by (simp add: decimal_def)
  ultimately show ?thesis
    by (simp add: getRelayerBackoffMs_def far_reset_error_def Number_def round_2_53_1
        round_2_53_5 round_times_1000)
qed

text \<open>
  The claim as it is written fails in two ways. The hint \<open>resets in 9007199254740993
  seconds\<close> gives 9007199254740996096 milliseconds, which is not
  \<open>(9007199254740993 + 5) * 1000\<close>: the number is read and the sum and the product are
  taken in doubles. And an error whose \<open>message\<close> holds the hint \<open>resets in 12 seconds\<close>
  gets 60000 milliseconds when its \<open>data.error\<close> is another non-empty text.
\<close>

theorem backoff_by_error_class_counterexample:
  "status far_reset_error = Some 429
   \<and> data_error far_reset_error = Some ''resets in 9007199254740993 seconds''
   \<and> decimal ''9007199254740993'' = 9007199254740993
   \<and> getRelayerBackoffMs far_reset_error = Some (Finite 9007199254740996096)
   \<and> real ((9007199254740993 + 5) * 1000) \<noteq> 9007199254740996096
   \<and> status shadowed_hint_error = Some 429
   \<and> message shadowed_hint_error = Some ''resets in 12 seconds''
   \<and> getRelayerBackoffMs shadowed_hint_error = Some (Finite 60000)"
proof (intro conjI)
  show "getRelayerBackoffMs shadowed_hint_error = Some (Finite 60000)"
    by (simp add: getRelayerBackoffMs_def shadowed_hint_error_def error_text_def
        or_else_def match_here_def upper_code_def is_digit_def)
  show "getRelayerBackoffMs far_reset_error = Some (Finite 9007199254740996096)"
    by (rule far_reset_backoff)
qed (simp_all add: far_reset_error_def shadowed_hint_error_def decimal_def)

lemma backoff_rate_limit_error: "getRelayerBackoffMs rate_limit_error = Some (Finite 17000)"
proof -
  have "regex_exec (error_text rate_limit_error) = Some ''12''"
    by (simp add: rate_limit_error_def error_text_def or_else_def match_here_def
        upper_code_def is_digit_def)
  moreover have "decimal ''12'' = 12" by (simp add: decimal_def)
  ultimately show ?thesis
    using backoff_exact [of 12]
    by (simp add: getRelayerBackoffMs_def rate_limit_error_def Number_def)
qed

lemma backoff_exhausted_error: "getRelayerBackoffMs exhausted_error = Some (Finite 6000)"
proof -
  have "regex_exec (error_text exhausted_error) = Some ''1''"
    by (simp add: exhausted_error_def error_text_def or_else_def match_here_def
        upper_code_def is_digit_def)
  moreover have "decimal ''1'' = 1" by (simp add: decimal_def)
  ultimately show ?thesis
    using backoff_exact [of 1]
    by (simp add: getRelayerBackoffMs_def exhausted_error_def Number_def)
qed

lemma backoff_server_error: "getRelayerBackoffMs server_error = None"
  by (simp add: getRelayerBackoffMs_def server_error_def)

lemma exhausted_error_signal:
  "isQuotaExhausted exhausted_error" "\<not> isQuotaExhausted rate_limit_error"
  by (simp_all add: isQuotaExhausted_def exhausted_error_def rate_limit_error_def)

lemma throttled_wait_run:
  "retry_loop throttled_wait_env default_config 2 0 (start_state throttled_wait_env)
     = (start_state throttled_wait_env)
         \<lparr>quotaTracker := \<lparr>callsThisHour = 2, hourStartTime = 0\<rparr>, sent := 2,
          slept := [Finite 17000], mergedCount := 2\<rparr>"
  by (simp add: retry_loop.simps [of _ _ _ 0] retry_loop.simps [of _ _ _ "Suc 0"]
      maxAttempts_def start_state_def throttled_wait_env_def throttled_wait_relay_def
      still_clock_def try_submit_def backoff_rate_limit_error exhausted_error_signal
      incrementQuota_def add_merged_def sleep_def)

theorem counter_over_retry_loop_witness:
  "(0::nat) < maxAttempts
   \<and> accepted (relay throttled_wait_env 0) \<and> accepted (relay throttled_wait_env 1)
   \<and> \<not> exhaustion_signal (relay throttled_wait_env 1)
   \<and> sent (start_state throttled_wait_env) = 0
   \<and> callsThisHour (quotaTracker (start_state throttled_wait_env)) = 0
   \<and> sent (retry_loop throttled_wait_env default_config 2 0
             (start_state throttled_wait_env)) = 2
   \<and> callsThisHour (quotaTracker (retry_loop throttled_wait_env default_config 2 0
             (start_state throttled_wait_env))) = 2"
proof -
  have a: "(0::nat) < maxAttempts" by (simp add: maxAttempts_def)
  from counter_over_retry_loop [OF a, of "start_state throttled_wait_env"
      throttled_wait_env default_config 2]
  show ?thesis
    by (simp add: throttled_wait_run a)
      (simp add: start_state_def throttled_wait_env_def throttled_wait_relay_def
        exhaustion_signal_def)
qed

lemma rejecting_run:
  "retry_loop rejecting_env default_config 2 0 (start_state rejecting_env)
     = (start_state rejecting_env)\<lparr>sent := 1, errorCount := 2\<rparr>"
  by (simp add: retry_loop.simps [of _ _ _ 0] maxAttempts_def start_state_def
      rejecting_env_def rejecting_relay_def try_submit_def backoff_server_error
      add_errors_def)

lemma exhausted_wait_run:
  "retry_loop exhausted_wait_env default_config 2 0 (start_state exhausted_wait_env)
     = (start_state exhausted_wait_env)
         \<lparr>quotaTracker := \<lparr>callsThisHour = 20, hourStartTime = 0\<rparr>, sent := 1,
          errorCount := 2\<rparr>"
  by (simp add: retry_loop.simps [of _ _ _ 0] maxAttempts_def start_state_def
      exhausted_wait_env_def exhausted_wait_relay_def still_clock_def try_submit_def
      backoff_exhausted_error exhausted_error_signal incrementQuota_def add_errors_def
      markExhausted_def default_config_def)

text \<open>
  The claim as it is written fails in two ways. With a relay that rejects the call with
  a server error, one submission is sent and the counter is not incremented. With a
  relay that accepts the call and whose \<open>wait()\<close> raises the exhaustion signal, one
  submission is sent and the counter goes from 0 to the limit of 20.
\<close>

theorem increment_per_submission_counterexample:
  "sent (retry_loop rejecting_env default_config 2 0 (start_state rejecting_env))
     = sent (start_state rejecting_env) + 1
   \<and> callsThisHour (quotaTracker (retry_loop rejecting_env default_config 2 0 (start_state rejecting_env)))
     \<noteq> callsThisHour (quotaTracker (start_state rejecting_env)) + 1
   \<and> sent (retry_loop exhausted_wait_env default_config 2 0 (start_state exhausted_wait_env))
     = sent (start_state exhausted_wait_env) + 1
   \<and> callsThisHour (quotaTracker (retry_loop exhausted_wait_env default_config 2 0
        (start_state exhausted_wait_env)))
     \<noteq> callsThisHour (quotaTracker (start_state exhausted_wait_env)) + 1"
  by (simp add: rejecting_run exhausted_wait_run) (simp add: start_state_def)

section \<open>The scan\<close>

text \<open>
  C2. For a descriptor whose balances are read, the amount is the minimum of the two
  balances. The descriptor is appended to the candidates, with that amount, exactly when
  the amount is greater than zero and at least the configured minimum; an amount of zero
  is counted in \<open>skippedZero\<close> and an amount between zero and the minimum in
  \<open>skippedBelowMin\<close>, and nothing else changes.
\<close>

theorem scan_market_classifies:
  assumes "getTokenBalances m = Some b"
  shows "let amount = min (yesBalance b) (noBalance b);
             st' = scan_market getTokenBalances cfg m st
         in (0 < amount \<and> MIN_MERGE_AMOUNT cfg \<le> int amount \<longrightarrow>
               st' = st\<lparr>candidates := candidates st @ [\<lparr>market = m, minBalance = amount\<rparr>]\<rparr>)
          \<and> (amount = 0 \<longrightarrow> st' = st\<lparr>skippedZero := skippedZero st + 1\<rparr>)
          \<and> (0 < amount \<and> int amount < MIN_MERGE_AMOUNT cfg \<longrightarrow>
               st' = st\<lparr>skippedBelowMin := skippedBelowMin st + 1\<rparr>)
          \<and> ((candidates st' \<noteq> candidates st)
               = (0 < amount \<and> MIN_MERGE_AMOUNT cfg \<le> int amount))"
  using assms by (simp add: scan_market_def Let_def min_def)

theorem scan_market_classifies_witness:
  "(reader_5_3 market_a = Some \<lparr>yesBalance = 5, noBalance = 3\<rparr>
      \<and> scan_market reader_5_3 small_min_config market_a scan_start
          = \<lparr>candidates = [], skippedZero = 0, skippedBelowMin = 1\<rparr>)
   \<and> (reader_0_7 market_a = Some \<lparr>yesBalance = 0, noBalance = 7\<rparr>
      \<and> scan_market reader_0_7 small_min_config market_a scan_start
          = \<lparr>candidates = [], skippedZero = 1, skippedBelowMin = 0\<rparr>)
   \<and> (reader_20_15 market_a = Some \<lparr>yesBalance = 20, noBalance = 15\<rparr>
      \<and> scan_market reader_20_15 small_min_config market_a scan_start
          = \<lparr>candidates = [\<lparr>market = market_a, minBalance = 15\<rparr>],
             skippedZero = 0, skippedBelowMin = 0\<rparr>)"
  using scan_market_classifies
          [where getTokenBalances = reader_5_3 and m = market_a
             and b = "\<lparr>yesBalance = 5, noBalance = 3\<rparr>" and cfg = small_min_config
             and st = scan_start]
        scan_market_classifies
          [where getTokenBalances = reader_0_7 and m = market_a
             and b = "\<lparr>yesBalance = 0, noBalance = 7\<rparr>" and cfg = small_min_config
             and st = scan_start]
        scan_market_classifies
          [where getTokenBalances = reader_20_15 and m = market_a
             and b = "\<lparr>yesBalance = 20, noBalance = 15\<rparr>" and cfg = small_min_config
             and st = scan_start]
  by (simp add: reader_5_3_def reader_0_7_def reader_20_15_def small_min_config_def
      default_config_def scan_start_def Let_def)



section \<open>What the retry loop keeps\<close>

lemma retry_loop_preserves:
  fixes f :: "State \<Rightarrow> 'a"
  assumes "\<And>out s. f (snd (try_submit out s)) = f s"
    and "\<And>b s. f (sleep b s) = f s"
    and "\<And>n s. f (add_merged n s) = f s"
    and "\<And>n s. f (add_errors n s) = f s"
    and "\<And>cfg s. f (markExhausted cfg s) = f s"
  shows "f (retry_loop env cfg n a s) = f s"
proof (induction env cfg n a s rule: retry_loop.induct)
  case (1 env cfg n attempts s)
  obtain res s1 where ts: "try_submit (relay env (sent s)) s = (res, s1)"
    by (cases "try_submit (relay env (sent s)) s")
  then have "s1 = snd (try_submit (relay env (sent s)) s)" by simp
  then have s1: "f s1 = f s" by (simp add: assms(1))
  show ?case
  proof (cases "attempts < maxAttempts")
    case False
    then show ?thesis by (simp add: retry_loop_done)
  next
    case True
    show ?thesis
    proof (cases "\<exists>err b. res = Inl err \<and> getRelayerBackoffMs err = Some b
        \<and> \<not> isQuotaExhausted err \<and> attempts + 1 < maxAttempts")
      case retry: True
      then obtain err b where c: "res = Inl err" "getRelayerBackoffMs err = Some b"
          "\<not> isQuotaExhausted err" "attempts + 1 < maxAttempts"
        by blast
      from 1 [OF True ts [symmetric] c(1) c(2) c(3) c(4)] s1
      have "f (retry_loop env cfg n (attempts + 1) (sleep b s1)) = f s"
        by (simp add: assms(2))
      with retry_loop_unfold [OF True ts, of cfg n] c show ?thesis by simp
    next
      case False
      with retry_loop_unfold [OF True ts, of cfg n] s1 show ?thesis
        by (auto simp: assms split: sum.splits option.splits)
    qed
  qed
qed

lemma retry_loop_keeps:
  "logged (retry_loop env cfg n a s) = logged s"
  "built (retry_loop env cfg n a s) = built s"
  "ticks (retry_loop env cfg n a s) = ticks s"
  "hourStartTime (quotaTracker (retry_loop env cfg n a s)) = hourStartTime (quotaTracker s)"
  by (rule retry_loop_preserves;
      simp add: try_submit_keeps sleep_def add_merged_def add_errors_def markExhausted_def)+

text \<open>Every batch that enters the retry loop is counted once, as merged or as errored.\<close>

lemma retry_loop_counts_once:
  "a < maxAttempts \<Longrightarrow>
     mergedCount (retry_loop env cfg n a s) + errorCount (retry_loop env cfg n a s)
       = mergedCount s + errorCount s + n"
proof (induction env cfg n a s rule: retry_loop.induct)
  case (1 env cfg n attempts s)
  obtain res s1 where ts: "try_submit (relay env (sent s)) s = (res, s1)"
    by (cases "try_submit (relay env (sent s)) s")
  then have s1: "s1 = snd (try_submit (relay env (sent s)) s)" by simp
  have c: "mergedCount s1 = mergedCount s" "errorCount s1 = errorCount s"
    by (simp_all add: s1 try_submit_counters)
  show ?case
  proof (cases "\<exists>err b. res = Inl err \<and> getRelayerBackoffMs err = Some b
      \<and> \<not> isQuotaExhausted err \<and> attempts + 1 < maxAttempts")
    case True
    then obtain err b where r: "res = Inl err" "getRelayerBackoffMs err = Some b"
        "\<not> isQuotaExhausted err" "attempts + 1 < maxAttempts"
      by blast
    from 1(1) [OF 1(2) ts [symmetric] r(1) r(2) r(3) r(4) r(4)] c
    have "mergedCount (retry_loop env cfg n (attempts + 1) (sleep b s1))
        + errorCount (retry_loop env cfg n (attempts + 1) (sleep b s1))
        = mergedCount s + errorCount s + n"
      by (simp add: sleep_def)
    with retry_loop_unfold [OF 1(2) ts, of cfg n] r show ?thesis by simp
  next
    case False
    with retry_loop_unfold [OF 1(2) ts, of cfg n] c show ?thesis
      by (auto simp: add_merged_def add_errors_def markExhausted_def
          split: sum.splits option.splits)
  qed
qed

section \<open>The batch loop\<close>

lemma checkQuotaNow_keeps:
  "logged (snd (checkQuotaNow env cfg s)) = logged s"
  "built (snd (checkQuotaNow env cfg s)) = built s"
  "mergedCount (snd (checkQuotaNow env cfg s)) = mergedCount s"
  "errorCount (snd (checkQuotaNow env cfg s)) = errorCount s"
  "sent (snd (checkQuotaNow env cfg s)) = sent s"
  "slept (snd (checkQuotaNow env cfg s)) = slept s"
  "ticks (snd (checkQuotaNow env cfg s)) = ticks s + 1"
  by (simp_all add: checkQuotaNow_def Let_def)





lemma toInteger_of_nat: "toInteger (real j) = int j"
  by (simp add: toInteger_def)

lemma relative_index_of_nat: "relative_index n (real j) = min j n"
  by (simp add: relative_index_def toInteger_of_nat Let_def)

lemma slice_whole: "slice cs (real j) (real j + real b) = take b (drop j cs)"
proof -
  have "real j + real b = real (j + b)" by simp
  then have "slice cs (real j) (real j + real b)
      = take (min (j + b) (length cs) - min j (length cs)) (drop (min j (length cs)) cs)"
    by (simp only: slice_def relative_index_of_nat Let_def)
  also have "\<dots> = take b (drop j cs)"
    by (cases "j \<le> length cs") (simp_all add: min_def)
  finally show ?thesis .
qed

lemma batch_body_Inl:
  "batch_body env cfg cs i s1 = Inl s' \<Longrightarrow>
     s' = s1 \<and> \<not> list_all (encodes env) (slice cs i (i + BATCH_SIZE cfg))"
  by (simp add: batch_body_def Let_def split: if_splits)

lemma batch_body_Inr:
  assumes "batch_body env cfg cs i s1 = Inr s'"
  shows "list_all (encodes env) (slice cs i (i + BATCH_SIZE cfg))"
    and "logged s' = logged s1"
    and "built s' = built s1 @ [slice cs i (i + BATCH_SIZE cfg)]"
    and "ticks s' = ticks s1"
    and "quotaTracker s' = quotaTracker (retry_loop env cfg (length (slice cs i (i + BATCH_SIZE cfg))) 0
           (s1\<lparr>built := built s1 @ [slice cs i (i + BATCH_SIZE cfg)]\<rparr>))"
    and "sent s' = sent (retry_loop env cfg (length (slice cs i (i + BATCH_SIZE cfg))) 0
           (s1\<lparr>built := built s1 @ [slice cs i (i + BATCH_SIZE cfg)]\<rparr>))"
    and "mergedCount s' + errorCount s'
           = mergedCount s1 + errorCount s1 + length (slice cs i (i + BATCH_SIZE cfg))"
proof -
  have counts: "\<And>n s. mergedCount (retry_loop env cfg n 0 s) + errorCount (retry_loop env cfg n 0 s)
      = mergedCount s + errorCount s + n"
    by (rule retry_loop_counts_once) (simp add: maxAttempts_def)
  from assms show "list_all (encodes env) (slice cs i (i + BATCH_SIZE cfg))"
    by (simp add: batch_body_def Let_def split: if_splits)
  from assms show "logged s' = logged s1"
    by (auto simp: batch_body_def Let_def sleep_def retry_loop_keeps split: if_splits)
  from assms show "built s' = built s1 @ [slice cs i (i + BATCH_SIZE cfg)]"
    by (auto simp: batch_body_def Let_def sleep_def retry_loop_keeps split: if_splits)
  from assms show "ticks s' = ticks s1"
    by (auto simp: batch_body_def Let_def sleep_def retry_loop_keeps split: if_splits)
  from assms show "quotaTracker s' = quotaTracker (retry_loop env cfg (length (slice cs i (i + BATCH_SIZE cfg))) 0
           (s1\<lparr>built := built s1 @ [slice cs i (i + BATCH_SIZE cfg)]\<rparr>))"
    by (auto simp: batch_body_def Let_def sleep_def split: if_splits)
  from assms show "sent s' = sent (retry_loop env cfg (length (slice cs i (i + BATCH_SIZE cfg))) 0
           (s1\<lparr>built := built s1 @ [slice cs i (i + BATCH_SIZE cfg)]\<rparr>))"
    by (auto simp: batch_body_def Let_def sleep_def split: if_splits)
  from assms counts show "mergedCount s' + errorCount s'
           = mergedCount s1 + errorCount s1 + length (slice cs i (i + BATCH_SIZE cfg))"
    by (auto simp: batch_body_def Let_def sleep_def split: if_splits)
qed

text \<open>
  A rule for the batch loop in the style of a loop invariant: \<open>I\<close> holds at the head of
  every iteration, \<open>Q\<close> of the way the loop is left.
\<close>

lemma batch_loop_rule:
  assumes run: "batch_loop env cfg cs i s = Some e"
    and start: "I i s"
    and step: "\<And>i s s'. I i s \<Longrightarrow> i < real (length cs) \<Longrightarrow> fst (checkQuotaNow env cfg s) \<Longrightarrow>
                 batch_body env cfg cs i (snd (checkQuotaNow env cfg s)) = Inr s' \<Longrightarrow>
                 I (i + BATCH_SIZE cfg) s'"
    and thrown: "\<And>i s s'. I i s \<Longrightarrow> i < real (length cs) \<Longrightarrow> fst (checkQuotaNow env cfg s) \<Longrightarrow>
                 batch_body env cfg cs i (snd (checkQuotaNow env cfg s)) = Inl s' \<Longrightarrow>
                 Q (Threw s')"
    and stop: "\<And>i s. I i s \<Longrightarrow> i < real (length cs) \<Longrightarrow> \<not> fst (checkQuotaNow env cfg s) \<Longrightarrow>
                 Q (Stopped (snd (checkQuotaNow env cfg s)))"
    and finish: "\<And>i s. I i s \<Longrightarrow> \<not> i < real (length cs) \<Longrightarrow> Q (Completed s)"
  shows "Q e"
proof -
  have "env' = env \<longrightarrow> cfg' = cfg \<longrightarrow> cs' = cs \<longrightarrow> I i s \<longrightarrow> Q e"
    if "batch_loop env' cfg' cs' i s = Some e" for env' cfg' cs'
    using that
  proof (rule batch_loop.raw_induct
      [where P = "\<lambda>env' cfg' cs' i s e. env' = env \<longrightarrow> cfg' = cfg \<longrightarrow> cs' = cs \<longrightarrow> I i s \<longrightarrow> Q e",
        rotated])
    fix f env' cfg' cs' i s e
    assume IH: "\<And>env' cfg' cs' i s e. f env' cfg' cs' i s = Some e \<Longrightarrow>
        env' = env \<longrightarrow> cfg' = cfg \<longrightarrow> cs' = cs \<longrightarrow> I i s \<longrightarrow> Q e"
      and body: "(if i < real (length cs') then
          (if fst (checkQuotaNow env' cfg' s) then
             (case batch_body env' cfg' cs' i (snd (checkQuotaNow env' cfg' s)) of
                Inl s' \<Rightarrow> Some (Threw s')
              | Inr s' \<Rightarrow> f env' cfg' cs' (i + BATCH_SIZE cfg') s')
           else Some (Stopped (snd (checkQuotaNow env' cfg' s))))
        else Some (Completed s)) = Some e"
    show "env' = env \<longrightarrow> cfg' = cfg \<longrightarrow> cs' = cs \<longrightarrow> I i s \<longrightarrow> Q e"
    proof (intro impI)
      assume eq: "env' = env" "cfg' = cfg" "cs' = cs" and inv: "I i s"
      show "Q e"
      proof (cases "i < real (length cs)")
        case False
        with body eq have "e = Completed s" by simp
        with finish [OF inv False] show ?thesis by simp
      next
        case True
        show ?thesis
        proof (cases "fst (checkQuotaNow env cfg s)")
          case False
          with body eq True have "e = Stopped (snd (checkQuotaNow env cfg s))" by simp
          with stop [OF inv True False] show ?thesis by simp
        next
          case ok: True
          show ?thesis
          proof (cases "batch_body env cfg cs i (snd (checkQuotaNow env cfg s))")
            case (Inl s')
            with body eq True ok have "e = Threw s'" by simp
            with thrown [OF inv True ok Inl] show ?thesis by simp
          next
            case (Inr s')
            with body eq True ok have "f env cfg cs (i + BATCH_SIZE cfg) s' = Some e"
              by simp
            from IH [OF this] step [OF inv True ok Inr] show ?thesis by simp
          qed
        qed
      qed
    qed
  qed
  with run start show ?thesis by blast
qed





text \<open>With a positive batch size the loop over the batches comes to an end.\<close>

lemma batch_loop_returns:
  assumes pos: "0 < BATCH_SIZE cfg"
  shows "\<exists>e. batch_loop env cfg cs i s = Some e"
proof (induction "nat \<lceil>(real (length cs) - i) / BATCH_SIZE cfg\<rceil>" arbitrary: i s
    rule: less_induct)
  case less
  show ?case
  proof (cases "i < real (length cs)")
    case False
    then show ?thesis by (subst batch_loop.simps) simp
  next
    case True
    show ?thesis
    proof (cases "fst (checkQuotaNow env cfg s)")
      case False
      with True show ?thesis by (subst batch_loop.simps) simp
    next
      case ok: True
      show ?thesis
      proof (cases "batch_body env cfg cs i (snd (checkQuotaNow env cfg s))")
        case (Inl s')
        with True ok show ?thesis by (subst batch_loop.simps) simp
      next
        case (Inr s')
        have "(real (length cs) - (i + BATCH_SIZE cfg)) / BATCH_SIZE cfg
            = (real (length cs) - i) / BATCH_SIZE cfg - 1"
          using pos by (simp add: field_simps)
        then have c: "\<lceil>(real (length cs) - (i + BATCH_SIZE cfg)) / BATCH_SIZE cfg\<rceil>
            = \<lceil>(real (length cs) - i) / BATCH_SIZE cfg\<rceil> - 1"
          by simp
        from True pos have "0 < (real (length cs) - i) / BATCH_SIZE cfg" by simp
        then have "0 < \<lceil>(real (length cs) - i) / BATCH_SIZE cfg\<rceil>" by simp
        with c have "nat \<lceil>(real (length cs) - (i + BATCH_SIZE cfg)) / BATCH_SIZE cfg\<rceil>
            < nat \<lceil>(real (length cs) - i) / BATCH_SIZE cfg\<rceil>"
          by simp
        from less [OF this, of s'] obtain e
          where "batch_loop env cfg cs (i + BATCH_SIZE cfg) s' = Some e" by blast
        with True ok Inr show ?thesis by (subst batch_loop.simps) simp
      qed
    qed
  qed
qed


section \<open>The summaries of a pass\<close>


lemma encodes_candidates:
  "encodes_bytes32 candidate_a" "encodes_bytes32 candidate_b" "encodes_bytes32 candidate_c"
  by (simp_all add: encodes_bytes32_def bytes32_hex_def is_hex_digit_def
      candidate_a_def candidate_b_def candidate_c_def market_a_def market_b_def market_c_def)

lemma mixed_scan:
  "scan mixed_reader small_min_config [market_a, market_b] scan_start
     = \<lparr>candidates = [candidate_a], skippedZero = 0, skippedBelowMin = 0\<rparr>"
  by (simp add: scan_market_def scan_start_def mixed_reader_def small_min_config_def
      default_config_def candidate_a_def market_a_def market_b_def Let_def)

lemma mixed_run:
  "cycle failing_env small_min_config (Some [market_a, market_b]) mixed_reader
     (start_state failing_env)
   = Some \<lparr>quotaTracker = \<lparr>callsThisHour = 1, hourStartTime = 0\<rparr>,
            sent = 1, ticks = 3, slept = [Finite 1800000],
            logged = [ScanComplete 1 0 0, MergeCycleComplete 1 0],
            built = [ [candidate_a] ], mergedCount = 1, errorCount = 0\<rparr>"
  apply (simp only: cycle_def Let_def option.case mixed_scan)
  apply (simp add: checkQuotaNow_def checkAndUpdateQuota_def start_state_def
      failing_env_def still_clock_def small_min_config_def default_config_def hourMs_def
      phase2_start_def scan_logged_def Let_def)
  apply (subst batch_loop.simps)
  apply (simp add: checkQuotaNow_def checkAndUpdateQuota_def hourMs_def still_clock_def
      batch_body_def slice_def relative_index_def toInteger_def Let_def encodes_candidates
      retry_loop.simps [of _ _ _ 0] maxAttempts_def
      try_submit_def failing_relay_def incrementQuota_def add_merged_def)
  apply (subst batch_loop.simps)
  apply (simp add: sleep_def phase2_end_def small_min_config_def default_config_def)
  done



section \<open>The batches of a pass\<close>

lemma batches_le:
  assumes "0 < b" and "k = 0 \<or> (k - 1) * b < n"
  shows "int k \<le> totalBatches n (real b)"
proof (cases "k = 0")
  case True
  have "0 \<le> real n / real b" by simp
  then have "0 \<le> \<lceil>real n / real b\<rceil>" by (simp only: zero_le_ceiling)
  with True show ?thesis by (simp add: totalBatches_def)
next
  case False
  with assms have "real ((k - 1) * b) < real n" by (simp only: of_nat_less_iff) simp
  with assms(1) have "real (k - 1) < real n / real b"
    by (simp add: pos_less_divide_eq)
  then have "real_of_int (int (k - 1)) < real n / real b" by simp
  then have "int (k - 1) < \<lceil>real n / real b\<rceil>" by (simp only: less_ceiling_iff)
  with False show ?thesis by (simp add: totalBatches_def)
qed

lemma batches_eq:
  assumes "0 < b" and "k = 0 \<or> (k - 1) * b < n" and "n \<le> k * b"
  shows "totalBatches n (real b) = int k"
proof -
  from assms(3) have "real n \<le> real (k * b)" by (simp only: of_nat_le_iff)
  with assms(1) have "real n / real b \<le> real k" by (simp add: pos_divide_le_eq)
  then have "\<lceil>real n / real b\<rceil> \<le> int k" by (simp add: ceiling_le_iff)
  with batches_le [OF assms(1) assms(2)] show ?thesis by (simp add: totalBatches_def)
qed

lemma batch_loop_built:
  assumes size: "BATCH_SIZE cfg = real b" and pos: "0 < b"
    and run: "batch_loop env cfg cs 0 s = Some e"
  shows "\<exists>bs. built (end_state e) = built s @ bs
      \<and> (\<forall>x\<in>set bs. x \<noteq> [] \<and> length x \<le> b)
      \<and> (\<exists>rest. cs = concat bs @ rest)
      \<and> int (length bs) \<le> totalBatches (length cs) (BATCH_SIZE cfg)
      \<and> (\<forall>s'. e = Completed s' \<longrightarrow>
            concat bs = cs \<and> int (length bs) = totalBatches (length cs) (BATCH_SIZE cfg))"
proof -
  define I where "I = (\<lambda>(j::real) (x::State). \<exists>bs.
      j = real (length bs * b) \<and> built x = built s @ bs
      \<and> concat bs = take (length bs * b) cs
      \<and> (\<forall>y\<in>set bs. y \<noteq> [] \<and> length y \<le> b)
      \<and> (length bs = 0 \<or> (length bs - 1) * b < length cs))"
  define Q where "Q = (\<lambda>e. \<exists>bs. built (end_state e) = built s @ bs
      \<and> (\<forall>x\<in>set bs. x \<noteq> [] \<and> length x \<le> b)
      \<and> (\<exists>rest. cs = concat bs @ rest)
      \<and> int (length bs) \<le> totalBatches (length cs) (BATCH_SIZE cfg)
      \<and> (\<forall>s'. e = Completed s' \<longrightarrow>
            concat bs = cs \<and> int (length bs) = totalBatches (length cs) (BATCH_SIZE cfg)))"
  have partial: "Q (f x)"
    if inv: "I j x" and keep: "built (end_state (f x)) = built x"
      and other: "\<And>s'. f x \<noteq> Completed s'"
    for j x and f :: "State \<Rightarrow> Ending"
  proof -
    from inv obtain bs where bs: "built x = built s @ bs"
        "concat bs = take (length bs * b) cs"
        "\<forall>y\<in>set bs. y \<noteq> [] \<and> length y \<le> b"
        "length bs = 0 \<or> (length bs - 1) * b < length cs"
      unfolding I_def by blast
    have "cs = concat bs @ drop (length bs * b) cs" by (simp add: bs(2))
    then have "\<exists>rest. cs = concat bs @ rest" ..
    moreover from batches_le [OF pos bs(4)]
    have "int (length bs) \<le> totalBatches (length cs) (BATCH_SIZE cfg)" by (simp add: size)
    ultimately show ?thesis unfolding Q_def using bs keep other by auto
  qed
  have "Q e"
  proof (rule batch_loop_rule [OF run, where I = I and Q = Q])
    show "I 0 s" unfolding I_def by (intro exI [of _ "[]"]) simp
  next
    fix j and x :: State and s' :: State
    assume inv: "I j x" and more: "j < real (length cs)"
      and body: "batch_body env cfg cs j (snd (checkQuotaNow env cfg x)) = Inr s'"
    from inv obtain bs where bs: "j = real (length bs * b)" "built x = built s @ bs"
        "concat bs = take (length bs * b) cs"
        "\<forall>y\<in>set bs. y \<noteq> [] \<and> length y \<le> b"
      unfolding I_def by blast
    define batch where "batch = take b (drop (length bs * b) cs)"
    from more bs(1) have lt: "length bs * b < length cs" by (simp only: of_nat_less_iff)
    have sl: "slice cs j (j + BATCH_SIZE cfg) = batch"
      by (simp only: bs(1) size slice_whole batch_def)
    from batch_body_Inr(3) [OF body] have b': "built s' = built s @ (bs @ [batch])"
      by (simp add: sl checkQuotaNow_keeps bs(2))
    from lt pos have ne: "batch \<noteq> [] \<and> length batch \<le> b" by (auto simp: batch_def)
    have "concat (bs @ [batch]) = take (length bs * b) cs @ take b (drop (length bs * b) cs)"
      by (simp add: bs(3) batch_def)
    also have "\<dots> = take (length bs * b + b) cs" by (simp only: take_add)
    finally have cc: "concat (bs @ [batch]) = take (length (bs @ [batch]) * b) cs"
      by (simp add: add.commute)
    have idx: "j + BATCH_SIZE cfg = real (length (bs @ [batch]) * b)"
      by (simp add: bs(1) size algebra_simps)
    from lt have last: "(length (bs @ [batch]) - 1) * b < length cs" by simp
    from b' cc idx last ne bs(4) show "I (j + BATCH_SIZE cfg) s'"
      unfolding I_def by (intro exI [of _ "bs @ [batch]"]) auto
  next
    fix j and x :: State and s' :: State
    assume inv: "I j x"
      and body: "batch_body env cfg cs j (snd (checkQuotaNow env cfg x)) = Inl s'"
    from batch_body_Inl [OF body] have "s' = snd (checkQuotaNow env cfg x)" by simp
    with partial [OF inv, of "\<lambda>x. Threw (snd (checkQuotaNow env cfg x))"]
    show "Q (Threw s')" by (simp add: checkQuotaNow_keeps)
  next
    fix j and x :: State
    assume inv: "I j x"
    from partial [OF inv, of "\<lambda>x. Stopped (snd (checkQuotaNow env cfg x))"]
    show "Q (Stopped (snd (checkQuotaNow env cfg x)))" by (simp add: checkQuotaNow_keeps)
  next
    fix j and x :: State
    assume inv: "I j x" and fin: "\<not> j < real (length cs)"
    from inv obtain bs where bs: "j = real (length bs * b)" "built x = built s @ bs"
        "concat bs = take (length bs * b) cs"
        "\<forall>y\<in>set bs. y \<noteq> [] \<and> length y \<le> b"
        "length bs = 0 \<or> (length bs - 1) * b < length cs"
      unfolding I_def by blast
    from fin bs(1) have ge: "length cs \<le> length bs * b"
      by (simp only: of_nat_less_iff not_less)
    with bs(3) have all: "concat bs = cs" by simp
    from batches_eq [OF pos bs(5) ge]
    have "int (length bs) = totalBatches (length cs) (BATCH_SIZE cfg)" by (simp add: size)
    with all bs(2) bs(4) show "Q (Completed x)"
      unfolding Q_def by (intro exI [of _ bs]) auto
  qed
  then show ?thesis unfolding Q_def .
qed

text \<open>
  C3 (as amended). For a batch size that is a positive whole number \<open>b\<close>, the loop over
  the batches ends, and the batches that it builds are, in their order, consecutive
  non-empty slices of at most \<open>b\<close> candidates from the head of the candidate list, at most
  \<open>ceil(n / b)\<close> of them. When the loop runs to its end, left neither by a failed quota
  check nor by an exception, there are exactly \<open>ceil(n / b)\<close> batches and their
  concatenation is the candidate list. For an empty list the loop ends at once, with no
  batch.
\<close>

theorem batches_cover:
  assumes "BATCH_SIZE cfg = real b" and "0 < b"
  shows "(\<exists>e bs. batch_loop env cfg cs 0 s = Some e
           \<and> built (end_state e) = built s @ bs
           \<and> (\<forall>x\<in>set bs. x \<noteq> [] \<and> length x \<le> b)
           \<and> (\<exists>rest. cs = concat bs @ rest)
           \<and> int (length bs) \<le> totalBatches (length cs) (BATCH_SIZE cfg)
           \<and> (\<forall>s'. e = Completed s' \<longrightarrow>
                 concat bs = cs \<and> int (length bs) = totalBatches (length cs) (BATCH_SIZE cfg)))
       \<and> batch_loop env cfg [] 0 s = Some (Completed s)"
proof
  from assms have "0 < BATCH_SIZE cfg" by simp
  from batch_loop_returns [OF this] obtain e where e: "batch_loop env cfg cs 0 s = Some e"
    by blast
  from batch_loop_built [OF assms e] e
  show "\<exists>e bs. batch_loop env cfg cs 0 s = Some e
           \<and> built (end_state e) = built s @ bs
           \<and> (\<forall>x\<in>set bs. x \<noteq> [] \<and> length x \<le> b)
           \<and> (\<exists>rest. cs = concat bs @ rest)
           \<and> int (length bs) \<le> totalBatches (length cs) (BATCH_SIZE cfg)
           \<and> (\<forall>s'. e = Completed s' \<longrightarrow>
                 concat bs = cs \<and> int (length bs) = totalBatches (length cs) (BATCH_SIZE cfg))"
    by blast
  show "batch_loop env cfg [] 0 s = Some (Completed s)"
    by (subst batch_loop.simps) simp
qed

lemma first_check:
  "HOURLY_QUOTA_LIMIT cfg = l \<Longrightarrow> clock env (ticks s) - hourStartTime (quotaTracker s) < hourMs \<Longrightarrow>
     checkQuotaNow env cfg s = (callsThisHour (quotaTracker s) < l, s\<lparr>ticks := ticks s + 1\<rparr>)"
  by (simp add: checkQuotaNow_def checkAndUpdateQuota_def Let_def)

lemma mining_step:
  "retry_loop mining_env cfg n 0 s
     = s\<lparr>sent := sent s + 1,
         quotaTracker := (quotaTracker s)\<lparr>callsThisHour := callsThisHour (quotaTracker s) + 1\<rparr>,
         mergedCount := mergedCount s + n\<rparr>"
  by (simp add: retry_loop.simps [of _ _ _ 0] maxAttempts_def mining_env_def mining_relay_def
      try_submit_def incrementQuota_def add_merged_def)

lemma pairs_run:
  "batch_loop mining_env pairs_config [candidate_a, candidate_b, candidate_c] 0
       (start_state mining_env)
     = Some (Completed
         \<lparr>quotaTracker = \<lparr>callsThisHour = 2, hourStartTime = 0\<rparr>,
          sent = 2, ticks = 3, slept = [Finite 5000], logged = [],
          built = [ [candidate_a, candidate_b], [candidate_c] ],
          mergedCount = 3, errorCount = 0\<rparr>)"
  apply (subst batch_loop.simps)
  apply (simp add: first_check [where l = 20] hourMs_def batch_body_def slice_def
      relative_index_def toInteger_def Let_def encodes_candidates mining_step sleep_def)
  apply (simp add: start_state_def pairs_config_def small_min_config_def default_config_def
      mining_env_def still_clock_def encodes_candidates)
  apply (subst batch_loop.simps)
  apply (simp add: first_check [where l = 20] hourMs_def batch_body_def slice_def
      relative_index_def toInteger_def Let_def encodes_candidates sleep_def
      retry_loop.simps [of _ _ _ 0] maxAttempts_def mining_relay_def still_clock_def
      try_submit_def incrementQuota_def add_merged_def checkQuotaNow_def
      checkAndUpdateQuota_def)
  apply (subst batch_loop.simps)
  apply simp
  done

theorem batches_cover_witness:
  "BATCH_SIZE pairs_config = real 2 \<and> (0::nat) < 2
   \<and> list_all bytes32_hex (map (conditionId \<circ> market) [candidate_a, candidate_b, candidate_c])
   \<and> batch_loop mining_env pairs_config [candidate_a, candidate_b, candidate_c] 0
       (start_state mining_env)
     = Some (Completed
         \<lparr>quotaTracker = \<lparr>callsThisHour = 2, hourStartTime = 0\<rparr>,
          sent = 2, ticks = 3, slept = [Finite 5000], logged = [],
          built = [ [candidate_a, candidate_b], [candidate_c] ],
          mergedCount = 3, errorCount = 0\<rparr>)
   \<and> totalBatches (length [candidate_a, candidate_b, candidate_c]) (BATCH_SIZE pairs_config) = 2
   \<and> totalBatches 23 10 = 3"
proof -
  have size: "BATCH_SIZE pairs_config = real 2"
    by (simp add: pairs_config_def small_min_config_def default_config_def)
  have pos: "(0::nat) < 2" by simp
  have hex: "list_all bytes32_hex (map (conditionId \<circ> market) [candidate_a, candidate_b, candidate_c])"
    using encodes_candidates by (simp add: encodes_bytes32_def)
  have "\<lceil>23 / 10 :: real\<rceil> = 3" by (simp add: ceiling_unique)
  then have scenario: "totalBatches 23 10 = 3" by (simp add: totalBatches_def)
  from batches_cover [OF size pos, of mining_env "[candidate_a, candidate_b, candidate_c]"
      "start_state mining_env"] size hex scenario
  show ?thesis by (simp add: pairs_run) (simp add: start_state_def)
qed

lemma limit_two_run:
  "batch_loop mining_env limit_two_config [candidate_a, candidate_b, candidate_c] 0
       (start_state mining_env)
     = Some (Stopped
         \<lparr>quotaTracker = \<lparr>callsThisHour = 2, hourStartTime = 0\<rparr>,
          sent = 2, ticks = 4, slept = [Finite 5000, Finite 5000], logged = [],
          built = [ [candidate_a], [candidate_b] ],
          mergedCount = 2, errorCount = 0\<rparr>)"
  apply (subst batch_loop.simps)
  apply (simp add: start_state_def limit_two_config_def one_by_one_config_def
      small_min_config_def default_config_def mining_env_def still_clock_def
      encodes_candidates hourMs_def batch_body_def slice_def
      relative_index_def toInteger_def Let_def sleep_def
      retry_loop.simps [of _ _ _ 0] maxAttempts_def mining_relay_def
      try_submit_def incrementQuota_def add_merged_def checkQuotaNow_def
      checkAndUpdateQuota_def)
  apply (subst batch_loop.simps)
  apply (simp add: encodes_candidates hourMs_def batch_body_def slice_def
      relative_index_def toInteger_def Let_def sleep_def still_clock_def
      retry_loop.simps [of _ _ _ 0] maxAttempts_def mining_relay_def
      try_submit_def incrementQuota_def add_merged_def checkQuotaNow_def
      checkAndUpdateQuota_def)
  apply (subst batch_loop.simps)
  apply (simp add: hourMs_def still_clock_def checkQuotaNow_def checkAndUpdateQuota_def)
  done

lemma half_batch_run:
  "batch_loop mining_env half_batch_config [candidate_a, candidate_b, candidate_c] 0
       (start_state mining_env)
     = Some (Completed
         \<lparr>quotaTracker = \<lparr>callsThisHour = 2, hourStartTime = 0\<rparr>,
          sent = 2, ticks = 3, slept = [Finite 5000], logged = [],
          built = [ [candidate_a], [candidate_b, candidate_c] ],
          mergedCount = 3, errorCount = 0\<rparr>)"
  apply (subst batch_loop.simps)
  apply (simp add: start_state_def half_batch_config_def
      small_min_config_def default_config_def mining_env_def still_clock_def
      encodes_candidates hourMs_def batch_body_def slice_def
      relative_index_def toInteger_def Let_def sleep_def
      retry_loop.simps [of _ _ _ 0] maxAttempts_def mining_relay_def
      try_submit_def incrementQuota_def add_merged_def checkQuotaNow_def
      checkAndUpdateQuota_def)
  apply (subst batch_loop.simps)
  apply (simp add: encodes_candidates hourMs_def batch_body_def slice_def
      relative_index_def toInteger_def Let_def sleep_def still_clock_def
      retry_loop.simps [of _ _ _ 0] maxAttempts_def mining_relay_def
      try_submit_def incrementQuota_def add_merged_def checkQuotaNow_def
      checkAndUpdateQuota_def)
  apply (subst batch_loop.simps)
  apply simp
  done

text \<open>
  The claim as it is written fails in two ways. With an hourly limit of 2 and a batch
  size of 1, three candidates give two batches and not three: the quota check before the
  third batch fails and the loop is left. With a batch size of 1.5, three candidates
  give the batches of one and of two candidates, and the second is larger than the batch
  size.
\<close>

theorem batches_cover_counterexample:
  "BATCH_SIZE limit_two_config = 1
   \<and> totalBatches (length [candidate_a, candidate_b, candidate_c]) (BATCH_SIZE limit_two_config) = 3
   \<and> map_option (built \<circ> end_state)
       (batch_loop mining_env limit_two_config [candidate_a, candidate_b, candidate_c] 0
          (start_state mining_env))
     = Some [ [candidate_a], [candidate_b] ]
   \<and> BATCH_SIZE half_batch_config = 3 / 2
   \<and> map_option (built \<circ> end_state)
       (batch_loop mining_env half_batch_config [candidate_a, candidate_b, candidate_c] 0
          (start_state mining_env))
     = Some [ [candidate_a], [candidate_b, candidate_c] ]
   \<and> real (length [candidate_b, candidate_c]) > BATCH_SIZE half_batch_config"
  by (simp add: limit_two_run half_batch_run)
    (simp add: limit_two_config_def one_by_one_config_def half_batch_config_def
      small_min_config_def default_config_def totalBatches_def)

section \<open>The exhaustion signal\<close>












section \<open>The counter and the limit\<close>

text \<open>
  The counter holds a whole number: it is set to 0, advanced by 1, or set to the limit,
  which the lemmas below take to be a whole number \<open>l\<close>.
\<close>

lemma check_passed_below_limit:
  "fst (checkQuotaNow env cfg s) \<Longrightarrow>
     callsThisHour (quotaTracker (snd (checkQuotaNow env cfg s))) < HOURLY_QUOTA_LIMIT cfg"
  by (simp add: checkQuotaNow_def checkAndUpdateQuota_def Let_def split: if_splits)

lemma check_keeps_whole:
  assumes "\<exists>c\<le>b. callsThisHour (quotaTracker s) = real c"
  shows "\<exists>c\<le>b. callsThisHour (quotaTracker (snd (checkQuotaNow env cfg s))) = real c"
proof (cases "hourMs \<le> clock env (ticks s) - hourStartTime (quotaTracker s)")
  case True
  then have "callsThisHour (quotaTracker (snd (checkQuotaNow env cfg s))) = real 0"
    by (simp add: checkQuotaNow_def checkAndUpdateQuota_def Let_def)
  then show ?thesis by blast
next
  case False
  then have "callsThisHour (quotaTracker (snd (checkQuotaNow env cfg s)))
      = callsThisHour (quotaTracker s)"
    by (simp add: checkQuotaNow_def checkAndUpdateQuota_def Let_def)
  with assms show ?thesis by simp
qed

lemma check_passed_whole:
  assumes "HOURLY_QUOTA_LIMIT cfg = real l" and "fst (checkQuotaNow env cfg s)"
    and "\<exists>c\<le>b. callsThisHour (quotaTracker s) = real c"
  shows "\<exists>c<l. callsThisHour (quotaTracker (snd (checkQuotaNow env cfg s))) = real c"
proof -
  from check_keeps_whole [OF assms(3)] obtain c
    where c: "callsThisHour (quotaTracker (snd (checkQuotaNow env cfg s))) = real c"
    by blast
  with check_passed_below_limit [OF assms(2)] assms(1) have "real c < real l" by simp
  then have "c < l" by (simp only: of_nat_less_iff)
  with c show ?thesis by blast
qed

lemma try_submit_whole:
  assumes "callsThisHour (quotaTracker s) = real c"
  shows "callsThisHour (quotaTracker (snd (try_submit out s)))
           = real (if accepted out then c + 1 else c)"
  using assms by (simp add: try_submit_calls)

text \<open>
  In general an attempt adds at most 1 to the counter, so the retry loop adds at most
  the number of attempts that are left, unless the override sets the limit.
\<close>

lemma retry_loop_calls_bound:
  "HOURLY_QUOTA_LIMIT cfg = real l \<Longrightarrow>
     \<forall>c. callsThisHour (quotaTracker s) = real c \<longrightarrow>
       (\<exists>c'\<le>max l (c + (maxAttempts - a)).
          callsThisHour (quotaTracker (retry_loop env cfg n a s)) = real c')"
proof (induction env cfg n a s rule: retry_loop.induct)
  case (1 env cfg n attempts s)
  note lim = 1(2)
  obtain res s1 where ts: "try_submit (relay env (sent s)) s = (res, s1)"
    by (cases "try_submit (relay env (sent s)) s")
  then have s1: "s1 = snd (try_submit (relay env (sent s)) s)" by simp
  show ?case
  proof (intro allI impI)
    fix c
    assume c: "callsThisHour (quotaTracker s) = real c"
    define c1 where "c1 = (if accepted (relay env (sent s)) then c + 1 else c)"
    have c1: "callsThisHour (quotaTracker s1) = real c1"
      unfolding s1 c1_def using c by (rule try_submit_whole)
    have c1b: "c1 \<le> c + 1" by (simp add: c1_def)
    show "\<exists>c'\<le>max l (c + (maxAttempts - attempts)).
        callsThisHour (quotaTracker (retry_loop env cfg n attempts s)) = real c'"
    proof (cases "attempts < maxAttempts")
      case False
      with c show ?thesis by (intro exI [of _ c]) (simp add: retry_loop_done)
    next
      case True
      show ?thesis
      proof (cases "\<exists>err b. res = Inl err \<and> getRelayerBackoffMs err = Some b
          \<and> \<not> isQuotaExhausted err \<and> attempts + 1 < maxAttempts")
        case retry: True
        then obtain err b where r: "res = Inl err" "getRelayerBackoffMs err = Some b"
            "\<not> isQuotaExhausted err" "attempts + 1 < maxAttempts"
          by blast
        from c1 have "callsThisHour (quotaTracker (sleep b s1)) = real c1"
          by (simp add: sleep_def)
        with 1(1) [OF True ts [symmetric] r(1) r(2) r(3) r(4) lim]
        obtain c' where c': "c' \<le> max l (c1 + (maxAttempts - (attempts + 1)))"
            "callsThisHour (quotaTracker (retry_loop env cfg n (attempts + 1) (sleep b s1)))
               = real c'"
          by blast
        from c1b r(4) have "c1 + (maxAttempts - (attempts + 1)) \<le> c + (maxAttempts - attempts)"
          by simp
        with c'(1) have "c' \<le> max l (c + (maxAttempts - attempts))" by simp
        moreover from retry_loop_unfold [OF True ts, of cfg n] r c'(2)
        have "callsThisHour (quotaTracker (retry_loop env cfg n attempts s)) = real c'"
          by simp
        ultimately show ?thesis by blast
      next
        case False
        with retry_loop_unfold [OF True ts, of cfg n]
        have "retry_loop env cfg n attempts s = add_merged n s1
            \<or> retry_loop env cfg n attempts s = add_errors n s1
            \<or> retry_loop env cfg n attempts s = add_errors n (markExhausted cfg s1)"
          by (auto split: sum.splits option.splits)
        with c1 lim have "callsThisHour (quotaTracker (retry_loop env cfg n attempts s)) = real c1
            \<or> callsThisHour (quotaTracker (retry_loop env cfg n attempts s)) = real l"
          by (auto simp: add_merged_def add_errors_def markExhausted_def)
        moreover from c1b True have "c1 \<le> max l (c + (maxAttempts - attempts))" by simp
        moreover have "l \<le> max l (c + (maxAttempts - attempts))" by simp
        ultimately show ?thesis by blast
      qed
    qed
  qed
qed

text \<open>
  When \<open>wait()\<close> never raises a rate-limit error, every retry follows a call that was
  not accepted, so at most one attempt of a batch adds to the counter.
\<close>

lemma calm_retry_not_accepted:
  assumes "\<not> wait_rate_limited out" and "try_submit out s = (Inl err, s1)"
    and "getRelayerBackoffMs err = Some b"
  shows "callsThisHour (quotaTracker s1) = callsThisHour (quotaTracker s)"
proof (cases out)
  case (ExecuteThrows e)
  with assms(2) show ?thesis by (auto simp: try_submit_def Let_def)
next
  case (WaitThrows e)
  with assms(1) have "status e \<noteq> Some 429" by (simp add: wait_rate_limited_def)
  then have "getRelayerBackoffMs e = None" by (rule backoff_not_429)
  moreover from WaitThrows assms(2) have "err = e" by (auto simp: try_submit_def Let_def)
  ultimately show ?thesis using assms(3) by simp
next
  case WaitNull
  with assms(2) have "err = no_result_error" by (auto simp: try_submit_def Let_def)
  with assms(3) show ?thesis by (simp add: backoff_no_result)
next
  case (WaitResult r)
  with assms(2) show ?thesis by (auto simp: try_submit_def Let_def)
qed

lemma retry_loop_calm:
  "\<forall>k. \<not> wait_rate_limited (relay env k) \<Longrightarrow> HOURLY_QUOTA_LIMIT cfg = real l \<Longrightarrow>
     \<forall>c<l. callsThisHour (quotaTracker s) = real c \<longrightarrow>
       (\<exists>c'\<le>l. callsThisHour (quotaTracker (retry_loop env cfg n a s)) = real c')"
proof (induction env cfg n a s rule: retry_loop.induct)
  case (1 env cfg n attempts s)
  note calm = 1(2) and lim = 1(3)
  obtain res s1 where ts: "try_submit (relay env (sent s)) s = (res, s1)"
    by (cases "try_submit (relay env (sent s)) s")
  then have s1: "s1 = snd (try_submit (relay env (sent s)) s)" by simp
  show ?case
  proof (intro allI impI)
    fix c
    assume below: "c < l" and c: "callsThisHour (quotaTracker s) = real c"
    define c1 where "c1 = (if accepted (relay env (sent s)) then c + 1 else c)"
    have c1: "callsThisHour (quotaTracker s1) = real c1"
      unfolding s1 c1_def using c by (rule try_submit_whole)
    from below have c1b: "c1 \<le> l" by (simp add: c1_def)
    show "\<exists>c'\<le>l. callsThisHour (quotaTracker (retry_loop env cfg n attempts s)) = real c'"
    proof (cases "attempts < maxAttempts")
      case False
      with c below show ?thesis by (intro exI [of _ c]) (simp add: retry_loop_done)
    next
      case True
      show ?thesis
      proof (cases "\<exists>err b. res = Inl err \<and> getRelayerBackoffMs err = Some b
          \<and> \<not> isQuotaExhausted err \<and> attempts + 1 < maxAttempts")
        case retry: True
        then obtain err b where r: "res = Inl err" "getRelayerBackoffMs err = Some b"
            "\<not> isQuotaExhausted err" "attempts + 1 < maxAttempts"
          by blast
        from calm have "\<not> wait_rate_limited (relay env (sent s))" ..
        from calm_retry_not_accepted [OF this ts [unfolded r(1)] r(2)] c
        have "callsThisHour (quotaTracker (sleep b s1)) = real c" by (simp add: sleep_def)
        with 1(1) [OF True ts [symmetric] r(1) r(2) r(3) r(4) calm lim] below
        obtain c' where c': "c' \<le> l"
            "callsThisHour (quotaTracker (retry_loop env cfg n (attempts + 1) (sleep b s1)))
               = real c'"
          by blast
        from retry_loop_unfold [OF True ts, of cfg n] r c'(2)
        have "callsThisHour (quotaTracker (retry_loop env cfg n attempts s)) = real c'"
          by simp
        with c'(1) show ?thesis by blast
      next
        case False
        with retry_loop_unfold [OF True ts, of cfg n]
        have "retry_loop env cfg n attempts s = add_merged n s1
            \<or> retry_loop env cfg n attempts s = add_errors n s1
            \<or> retry_loop env cfg n attempts s = add_errors n (markExhausted cfg s1)"
          by (auto split: sum.splits option.splits)
        with c1 lim have "callsThisHour (quotaTracker (retry_loop env cfg n attempts s)) = real c1
            \<or> callsThisHour (quotaTracker (retry_loop env cfg n attempts s)) = real l"
          by (auto simp: add_merged_def add_errors_def markExhausted_def)
        with c1b show ?thesis by blast
      qed
    qed
  qed
qed

text \<open>The same bounds for every state that the retry loop passes through.\<close>

lemma retry_visits_bound:
  assumes lim: "HOURLY_QUOTA_LIMIT cfg = real l" and "retry_visits env cfg n a s v"
  shows "\<forall>c. callsThisHour (quotaTracker s) = real c \<longrightarrow>
       (\<exists>c'\<le>max l (c + (maxAttempts - a)). callsThisHour (quotaTracker v) = real c')"
  using assms(2)
proof (induction rule: retry_visits.induct)
  case (at_attempt a s)
  show ?case
  proof (intro allI impI)
    fix c
    assume "callsThisHour (quotaTracker s) = real c"
    then show "\<exists>c'\<le>max l (c + (maxAttempts - a)). callsThisHour (quotaTracker s) = real c'"
      by (intro exI [of _ c]) simp
  qed
next
  case (after_try a s)
  show ?case
  proof (intro allI impI)
    fix c
    assume c: "callsThisHour (quotaTracker s) = real c"
    define c1 where "c1 = (if accepted (relay env (sent s)) then c + 1 else c)"
    have "c1 \<le> c + 1" by (simp add: c1_def)
    with after_try have "c1 \<le> max l (c + (maxAttempts - a))" by simp
    with try_submit_whole [OF c, of "relay env (sent s)"]
    show "\<exists>c'\<le>max l (c + (maxAttempts - a)).
        callsThisHour (quotaTracker (snd (try_submit (relay env (sent s)) s))) = real c'"
      unfolding c1_def by blast
  qed
next
  case (at_exit a s)
  from retry_loop_calls_bound [OF lim] show ?case .
next
  case (retried a s err s1 backoffMs v)
  show ?case
  proof (intro allI impI)
    fix c
    assume c: "callsThisHour (quotaTracker s) = real c"
    define c1 where "c1 = (if accepted (relay env (sent s)) then c + 1 else c)"
    from retried(2) have "s1 = snd (try_submit (relay env (sent s)) s)" by simp
    with try_submit_whole [OF c, of "relay env (sent s)"]
    have "callsThisHour (quotaTracker (sleep backoffMs s1)) = real c1"
      by (simp add: sleep_def c1_def)
    with retried.IH obtain c' where c': "c' \<le> max l (c1 + (maxAttempts - (a + 1)))"
        "callsThisHour (quotaTracker v) = real c'"
      by blast
    have "c1 \<le> c + 1" by (simp add: c1_def)
    with retried(5) have "c1 + (maxAttempts - (a + 1)) \<le> c + (maxAttempts - a)"
      by simp
    with c'(1) have "c' \<le> max l (c + (maxAttempts - a))" by simp
    with c'(2) show "\<exists>c'\<le>max l (c + (maxAttempts - a)). callsThisHour (quotaTracker v) = real c'"
      by blast
  qed
qed

lemma retry_visits_calm:
  assumes calm: "\<forall>k. \<not> wait_rate_limited (relay env k)"
    and lim: "HOURLY_QUOTA_LIMIT cfg = real l" and "retry_visits env cfg n a s v"
  shows "\<forall>c<l. callsThisHour (quotaTracker s) = real c \<longrightarrow>
       (\<exists>c'\<le>l. callsThisHour (quotaTracker v) = real c')"
  using assms(3)
proof (induction rule: retry_visits.induct)
  case (at_attempt a s)
  show ?case
  proof (intro allI impI)
    fix c
    assume "c < l" and "callsThisHour (quotaTracker s) = real c"
    then show "\<exists>c'\<le>l. callsThisHour (quotaTracker s) = real c'"
      by (intro exI [of _ c]) simp
  qed
next
  case (after_try a s)
  show ?case
  proof (intro allI impI)
    fix c
    assume "c < l" and c: "callsThisHour (quotaTracker s) = real c"
    then have "(if accepted (relay env (sent s)) then c + 1 else c) \<le> l" by simp
    with try_submit_whole [OF c, of "relay env (sent s)"]
    show "\<exists>c'\<le>l. callsThisHour (quotaTracker (snd (try_submit (relay env (sent s)) s))) = real c'"
      by blast
  qed
next
  case (at_exit a s)
  from retry_loop_calm [OF calm lim] show ?case .
next
  case (retried a s err s1 backoffMs v)
  show ?case
  proof (intro allI impI)
    fix c
    assume below: "c < l" and c: "callsThisHour (quotaTracker s) = real c"
    from calm have "\<not> wait_rate_limited (relay env (sent s))" ..
    from calm_retry_not_accepted [OF this retried(2) retried(3)] c
    have "callsThisHour (quotaTracker (sleep backoffMs s1)) = real c" by (simp add: sleep_def)
    with retried.IH below show "\<exists>c'\<le>l. callsThisHour (quotaTracker v) = real c'" by blast
  qed
qed

text \<open>
  A bound \<open>b\<close> that the states of every batch started below the limit respect is kept by
  the loop over the batches and by a whole pass of the main loop.
\<close>

lemma batch_visits_bound:
  assumes lim: "HOURLY_QUOTA_LIMIT cfg = real l"
    and batch: "\<forall>x n v c. retry_visits env cfg n 0 x v \<longrightarrow> c < l \<longrightarrow>
        callsThisHour (quotaTracker x) = real c \<longrightarrow>
        (\<exists>c'\<le>b. callsThisHour (quotaTracker v) = real c')"
    and "batch_visits env cfg cs i s v"
    and "\<exists>c\<le>b. callsThisHour (quotaTracker s) = real c"
  shows "\<exists>c\<le>b. callsThisHour (quotaTracker v) = real c"
  using assms(3,4)
proof (induction rule: batch_visits.induct)
  case (at_batch i s)
  then show ?case .
next
  case (after_check i s)
  then show ?case by (intro check_keeps_whole)
next
  case (in_retry i s batch' s1 v)
  from check_passed_whole [OF lim in_retry(2) in_retry(7)] in_retry(5)
  obtain c where c: "c < l" "callsThisHour (quotaTracker s1) = real c" by blast
  then have "callsThisHour (quotaTracker (s1\<lparr>built := built s1 @ [batch']\<rparr>)) = real c"
    by simp
  from batch [rule_format, OF in_retry(6) c(1) this] show ?case .
next
  case (later_batch i s s' v)
  from check_passed_whole [OF lim later_batch(2) later_batch(6)]
  obtain c where c: "c < l"
      "callsThisHour (quotaTracker (snd (checkQuotaNow env cfg s))) = real c"
    by blast
  define s1 where "s1 = snd (checkQuotaNow env cfg s)"
  define batch' where "batch' = slice cs i (i + BATCH_SIZE cfg)"
  from c have "callsThisHour (quotaTracker (s1\<lparr>built := built s1 @ [batch']\<rparr>)) = real c"
    by (simp add: s1_def)
  from batch [rule_format, OF retry_visits.at_exit c(1) this, of "length batch'"]
    batch_body_Inr(5) [OF later_batch(3)]
  have "\<exists>c\<le>b. callsThisHour (quotaTracker s') = real c"
    by (simp add: s1_def batch'_def)
  then show ?case by (rule later_batch.IH)
qed

lemma batch_loop_bound:
  assumes lim: "HOURLY_QUOTA_LIMIT cfg = real l"
    and batch: "\<forall>x n v c. retry_visits env cfg n 0 x v \<longrightarrow> c < l \<longrightarrow>
        callsThisHour (quotaTracker x) = real c \<longrightarrow>
        (\<exists>c'\<le>b. callsThisHour (quotaTracker v) = real c')"
    and run: "batch_loop env cfg cs i s = Some e"
    and start: "\<exists>c\<le>b. callsThisHour (quotaTracker s) = real c"
  shows "\<exists>c\<le>b. callsThisHour (quotaTracker (end_state e)) = real c"
proof (rule batch_loop_rule [OF run,
      where I = "\<lambda>j x. \<exists>c\<le>b. callsThisHour (quotaTracker x) = real c"
        and Q = "\<lambda>e. \<exists>c\<le>b. callsThisHour (quotaTracker (end_state e)) = real c"])
  show "\<exists>c\<le>b. callsThisHour (quotaTracker s) = real c" by fact
next
  fix j and x :: State and s' :: State
  assume inv: "\<exists>c\<le>b. callsThisHour (quotaTracker x) = real c"
    and more: "j < real (length cs)" and ok: "fst (checkQuotaNow env cfg x)"
    and body: "batch_body env cfg cs j (snd (checkQuotaNow env cfg x)) = Inr s'"
  have "batch_visits env cfg cs j x s'"
    by (rule batch_visits.later_batch [OF more ok body batch_visits.at_batch])
  from batch_visits_bound [OF lim batch this inv]
  show "\<exists>c\<le>b. callsThisHour (quotaTracker s') = real c" .
next
  fix j and x :: State and s' :: State
  assume inv: "\<exists>c\<le>b. callsThisHour (quotaTracker x) = real c"
    and body: "batch_body env cfg cs j (snd (checkQuotaNow env cfg x)) = Inl s'"
  from batch_body_Inl [OF body] check_keeps_whole [OF inv, of env cfg]
  show "\<exists>c\<le>b. callsThisHour (quotaTracker (end_state (Threw s'))) = real c"
    by simp
next
  fix j and x :: State
  assume inv: "\<exists>c\<le>b. callsThisHour (quotaTracker x) = real c"
  from check_keeps_whole [OF inv, of env cfg]
  show "\<exists>c\<le>b. callsThisHour (quotaTracker (end_state (Stopped (snd (checkQuotaNow env cfg x))))) = real c"
    by simp
next
  fix j and x :: State
  assume "\<exists>c\<le>b. callsThisHour (quotaTracker x) = real c"
  then show "\<exists>c\<le>b. callsThisHour (quotaTracker (end_state (Completed x))) = real c"
    by simp
qed

lemma phase2_end_tracker: "quotaTracker (phase2_end e) = quotaTracker (end_state e)"
  by (cases e) (simp_all add: phase2_end_def)

lemma cycle_bound:
  assumes lim: "HOURLY_QUOTA_LIMIT cfg = real l"
    and batch: "\<forall>x n v c. retry_visits env cfg n 0 x v \<longrightarrow> c < l \<longrightarrow>
        callsThisHour (quotaTracker x) = real c \<longrightarrow>
        (\<exists>c'\<le>b. callsThisHour (quotaTracker v) = real c')"
    and s: "\<exists>c\<le>b. callsThisHour (quotaTracker s) = real c"
    and run: "cycle env cfg fetched rd s = Some s'"
  shows "\<exists>c\<le>b. callsThisHour (quotaTracker s') = real c"
proof -
  define s1 where "s1 = snd (checkQuotaNow env cfg s)"
  have s1: "\<exists>c\<le>b. callsThisHour (quotaTracker s1) = real c"
    unfolding s1_def using s by (rule check_keeps_whole)
  show ?thesis
  proof (cases "fst (checkQuotaNow env cfg s)")
    case False
    with run have "s' = sleep (Finite (MERGE_INTERVAL_MS cfg)) s1"
      by (simp add: cycle_def s1_def)
    with s1 show ?thesis by (simp add: sleep_def)
  next
    case True
    show ?thesis
    proof (cases fetched)
      case None
      with True run have "s' = sleep (Finite (MERGE_INTERVAL_MS cfg)) s1"
        by (simp add: cycle_def s1_def Let_def)
      with s1 show ?thesis by (simp add: sleep_def)
    next
      case (Some ms)
      define sc where "sc = scan rd cfg ms scan_start"
      show ?thesis
      proof (cases "candidates sc = []")
        case empty: True
        with True Some run have "s' = sleep (Finite (MERGE_INTERVAL_MS cfg)) (scan_logged sc s1)"
          by (simp add: cycle_def s1_def sc_def Let_def)
        with s1 show ?thesis by (simp add: sleep_def scan_logged_def)
      next
        case False
        with True Some run obtain e where
          e: "batch_loop env cfg (candidates sc) 0 (phase2_start sc s1) = Some e"
          and s': "s' = sleep (Finite (MERGE_INTERVAL_MS cfg)) (phase2_end e)"
          by (auto simp: cycle_def Let_def sc_def s1_def split: option.splits)
        from s1 have "\<exists>c\<le>b. callsThisHour (quotaTracker (phase2_start sc s1)) = real c"
          by (simp add: phase2_start_def scan_logged_def)
        from batch_loop_bound [OF lim batch e this] s' show ?thesis
          by (simp add: sleep_def phase2_end_tracker)
      qed
    qed
  qed
qed

lemma loop_head_bound:
  assumes lim: "HOURLY_QUOTA_LIMIT cfg = real l"
    and batch: "\<forall>x n v c. retry_visits env cfg n 0 x v \<longrightarrow> c < l \<longrightarrow>
        callsThisHour (quotaTracker x) = real c \<longrightarrow>
        (\<exists>c'\<le>b. callsThisHour (quotaTracker v) = real c')"
    and "loop_head env cfg s"
  shows "\<exists>c\<le>b. callsThisHour (quotaTracker s) = real c"
  using assms(3)
proof (induction rule: loop_head.induct)
  case start
  have "callsThisHour (quotaTracker (start_state env)) = real 0"
    by (simp add: start_state_def)
  then show ?case by blast
next
  case (pass s fetched getTokenBalances s')
  from cycle_bound [OF lim batch pass.IH pass.hyps(2)] show ?case .
qed

lemma reachable_bound:
  assumes lim: "HOURLY_QUOTA_LIMIT cfg = real l"
    and batch: "\<forall>x n v c. retry_visits env cfg n 0 x v \<longrightarrow> c < l \<longrightarrow>
        callsThisHour (quotaTracker x) = real c \<longrightarrow>
        (\<exists>c'\<le>b. callsThisHour (quotaTracker v) = real c')"
    and "reachable env cfg s"
  shows "\<exists>c\<le>b. callsThisHour (quotaTracker s) = real c"
  using assms(3)
proof (induction rule: reachable.induct)
  case (at_head s)
  from loop_head_bound [OF lim batch this] show ?case .
next
  case (checked s)
  from loop_head_bound [OF lim batch this] show ?case by (rule check_keeps_whole)
next
  case (scanned s sc getTokenBalances markets)
  from check_keeps_whole [OF loop_head_bound [OF lim batch scanned(1)], of env cfg]
  show ?case by (simp add: scan_logged_def)
next
  case (in_phase2 s sc getTokenBalances markets v)
  from check_keeps_whole [OF loop_head_bound [OF lim batch in_phase2(1)], of env cfg]
  have "\<exists>c\<le>b. callsThisHour (quotaTracker
      (phase2_start sc (snd (checkQuotaNow env cfg s)))) = real c"
    by (simp add: phase2_start_def scan_logged_def)
  from batch_visits_bound [OF lim batch in_phase2(5) this] show ?case .
next
  case (summed s sc getTokenBalances markets e)
  from check_keeps_whole [OF loop_head_bound [OF lim batch summed(1)], of env cfg]
  have "\<exists>c\<le>b. callsThisHour (quotaTracker
      (phase2_start sc (snd (checkQuotaNow env cfg s)))) = real c"
    by (simp add: phase2_start_def scan_logged_def)
  from batch_loop_bound [OF lim batch summed(5) this] show ?case
    by (simp add: phase2_end_tracker)
qed

text \<open>
  C5 (as amended). With a limit that is a whole number and not negative, the counter of
  a reachable state never exceeds the limit by more than 2: the quota is checked once
  for each batch and a batch makes at most three submissions. When waiting for a result
  never raises a rate-limit error, the counter of a reachable state never exceeds the
  limit.
\<close>

theorem counter_within_limit:
  assumes "HOURLY_QUOTA_LIMIT cfg = real l" and "reachable env cfg s"
  shows "callsThisHour (quotaTracker s) \<le> HOURLY_QUOTA_LIMIT cfg + 2
       \<and> ((\<forall>k. \<not> wait_rate_limited (relay env k)) \<longrightarrow>
            callsThisHour (quotaTracker s) \<le> HOURLY_QUOTA_LIMIT cfg)"
proof
  have general: "\<forall>x n v c. retry_visits env cfg n 0 x v \<longrightarrow> c < l \<longrightarrow>
      callsThisHour (quotaTracker x) = real c \<longrightarrow>
      (\<exists>c'\<le>l + 2. callsThisHour (quotaTracker v) = real c')"
  proof (intro allI impI)
    fix x n v c
    assume v: "retry_visits env cfg n 0 x v" and c: "c < l"
      and x: "callsThisHour (quotaTracker x) = real c"
    from retry_visits_bound [OF assms(1) v] x
    obtain c' where c': "c' \<le> max l (c + (maxAttempts - 0))"
        "callsThisHour (quotaTracker v) = real c'"
      by blast
    from c'(1) c have "c' \<le> l + 2" by (simp add: maxAttempts_def)
    with c'(2) show "\<exists>c'\<le>l + 2. callsThisHour (quotaTracker v) = real c'" by blast
  qed
  from reachable_bound [OF assms(1) general assms(2)]
  obtain c where "c \<le> l + 2" "callsThisHour (quotaTracker s) = real c" by blast
  then show "callsThisHour (quotaTracker s) \<le> HOURLY_QUOTA_LIMIT cfg + 2"
    by (simp add: assms(1))
next
  show "(\<forall>k. \<not> wait_rate_limited (relay env k)) \<longrightarrow>
      callsThisHour (quotaTracker s) \<le> HOURLY_QUOTA_LIMIT cfg"
  proof
    assume calm: "\<forall>k. \<not> wait_rate_limited (relay env k)"
    have quiet: "\<forall>x n v c. retry_visits env cfg n 0 x v \<longrightarrow> c < l \<longrightarrow>
        callsThisHour (quotaTracker x) = real c \<longrightarrow>
        (\<exists>c'\<le>l. callsThisHour (quotaTracker v) = real c')"
      using retry_visits_calm [OF calm assms(1)] by blast
    from reachable_bound [OF assms(1) quiet assms(2)]
    obtain c where "c \<le> l" "callsThisHour (quotaTracker s) = real c" by blast
    then show "callsThisHour (quotaTracker s) \<le> HOURLY_QUOTA_LIMIT cfg"
      by (simp add: assms(1))
  qed
qed

lemma mixed_pass:
  "cycle failing_env small_min_config (Some [market_a, market_b]) mixed_reader
     (start_state failing_env) = Some mixed_state"
  by (simp add: mixed_run mixed_state_def)

theorem counter_within_limit_witness:
  "HOURLY_QUOTA_LIMIT small_min_config = real 20
   \<and> reachable failing_env small_min_config mixed_state
   \<and> range (relay failing_env) = {WaitResult failed_result}
   \<and> \<not> wait_rate_limited (WaitResult failed_result)
   \<and> callsThisHour (quotaTracker mixed_state) = 1
   \<and> callsThisHour (quotaTracker mixed_state) \<le> HOURLY_QUOTA_LIMIT small_min_config"
proof -
  have limit: "HOURLY_QUOTA_LIMIT small_min_config = real 20"
    by (simp add: small_min_config_def default_config_def)
  have reach: "reachable failing_env small_min_config mixed_state"
    by (rule reachable.at_head [OF loop_head.pass [OF loop_head.start mixed_pass]])
  have calm: "\<forall>k. \<not> wait_rate_limited (relay failing_env k)"
    by (simp add: wait_rate_limited_def failing_env_def failing_relay_def)
  have rng: "range (relay failing_env) = {WaitResult failed_result}"
    by (auto simp: failing_env_def failing_relay_def)
  from counter_within_limit [OF limit reach] limit reach calm rng
  show ?thesis by (simp add: wait_rate_limited_def) (simp add: mixed_state_def)
qed

lemma one_scan:
  "scan reader_20_15 tiny_limit_config [market_a] scan_start
     = \<lparr>candidates = [candidate_a], skippedZero = 0, skippedBelowMin = 0\<rparr>"
  by (simp add: scan_market_def scan_start_def reader_20_15_def tiny_limit_config_def
      one_by_one_config_def small_min_config_def default_config_def candidate_a_def Let_def)

lemma overdrawn_run:
  "cycle throttled_wait_env tiny_limit_config (Some [market_a]) reader_20_15
     (start_state throttled_wait_env) = Some overdrawn_state"
  apply (simp only: cycle_def Let_def option.case one_scan)
  apply (simp add: checkQuotaNow_def checkAndUpdateQuota_def start_state_def
      throttled_wait_env_def still_clock_def tiny_limit_config_def one_by_one_config_def
      small_min_config_def default_config_def hourMs_def phase2_start_def scan_logged_def
      Let_def)
  apply (subst batch_loop.simps)
  apply (simp add: checkQuotaNow_def checkAndUpdateQuota_def hourMs_def still_clock_def
      batch_body_def slice_def relative_index_def toInteger_def Let_def encodes_candidates
      retry_loop.simps [of _ _ _ 0]
      retry_loop.simps [of _ _ _ "Suc 0"] maxAttempts_def
      try_submit_def throttled_wait_relay_def backoff_rate_limit_error
      exhausted_error_signal incrementQuota_def add_merged_def sleep_def)
  apply (subst batch_loop.simps)
  apply (simp add: sleep_def phase2_end_def overdrawn_state_def tiny_limit_config_def
      one_by_one_config_def small_min_config_def default_config_def)
  done

lemma three_scan:
  "scan reader_20_15 half_limit_config [market_a, market_b, market_c] scan_start
     = \<lparr>candidates = [candidate_a, candidate_b, candidate_c], skippedZero = 0,
        skippedBelowMin = 0\<rparr>"
  by (simp add: scan_market_def scan_start_def reader_20_15_def half_limit_config_def
      one_by_one_config_def small_min_config_def default_config_def candidate_a_def
      candidate_b_def candidate_c_def Let_def)

lemma fractional_run:
  "cycle mining_env half_limit_config (Some [market_a, market_b, market_c]) reader_20_15
     (start_state mining_env) = Some fractional_state"
  apply (simp only: cycle_def Let_def option.case three_scan)
  apply (simp add: checkQuotaNow_def checkAndUpdateQuota_def start_state_def
      mining_env_def still_clock_def half_limit_config_def one_by_one_config_def
      small_min_config_def default_config_def hourMs_def phase2_start_def scan_logged_def
      Let_def)
  apply (subst batch_loop.simps)
  apply (simp add: checkQuotaNow_def checkAndUpdateQuota_def hourMs_def still_clock_def
      batch_body_def slice_def relative_index_def toInteger_def Let_def encodes_candidates
      retry_loop.simps [of _ _ _ 0] maxAttempts_def
      try_submit_def mining_relay_def incrementQuota_def add_merged_def sleep_def)
  apply (subst batch_loop.simps)
  apply (simp add: checkQuotaNow_def checkAndUpdateQuota_def hourMs_def still_clock_def
      batch_body_def slice_def relative_index_def toInteger_def Let_def encodes_candidates
      retry_loop.simps [of _ _ _ 0] maxAttempts_def
      try_submit_def mining_relay_def incrementQuota_def add_merged_def sleep_def)
  apply (subst batch_loop.simps)
  apply (simp add: checkQuotaNow_def checkAndUpdateQuota_def hourMs_def still_clock_def
      batch_body_def slice_def relative_index_def toInteger_def Let_def encodes_candidates
      retry_loop.simps [of _ _ _ 0] maxAttempts_def
      try_submit_def mining_relay_def incrementQuota_def add_merged_def sleep_def)
  apply (subst batch_loop.simps)
  apply (simp add: sleep_def phase2_end_def fractional_state_def half_limit_config_def
      one_by_one_config_def small_min_config_def default_config_def)
  done

text \<open>
  The claim as it is written fails in three ways. With a limit of 1, the first call of
  the first batch is accepted and its \<open>wait()\<close> is throttled, the retry is accepted too,
  and the counter of the state reached after this pass is 2; no call raises the
  exhaustion signal. With a limit of 2.5 and a relay that mines every call, three batches
  of one candidate pass the check at 0, 1 and 2 and the counter of the state reached is
  3. With a limit of -1 the counter of the start state, 0, is above the limit.
\<close>

theorem counter_exceeds_limit_counterexample:
  "reachable throttled_wait_env tiny_limit_config overdrawn_state
   \<and> sent overdrawn_state = 2
   \<and> \<not> exhaustion_signal (relay throttled_wait_env 0)
   \<and> \<not> exhaustion_signal (relay throttled_wait_env 1)
   \<and> HOURLY_QUOTA_LIMIT tiny_limit_config < callsThisHour (quotaTracker overdrawn_state)
   \<and> reachable mining_env half_limit_config fractional_state
   \<and> range (relay mining_env) = {WaitResult mined_result}
   \<and> \<not> wait_rate_limited (WaitResult mined_result)
   \<and> \<not> exhaustion_signal (WaitResult mined_result)
   \<and> HOURLY_QUOTA_LIMIT half_limit_config = 5 / 2
   \<and> HOURLY_QUOTA_LIMIT half_limit_config < callsThisHour (quotaTracker fractional_state)
   \<and> reachable mining_env negative_limit_config (start_state mining_env)
   \<and> HOURLY_QUOTA_LIMIT negative_limit_config
       < callsThisHour (quotaTracker (start_state mining_env))"
proof -
  have "reachable throttled_wait_env tiny_limit_config overdrawn_state"
    by (rule reachable.at_head [OF loop_head.pass [OF loop_head.start overdrawn_run]])
  moreover have "reachable mining_env half_limit_config fractional_state"
    by (rule reachable.at_head [OF loop_head.pass [OF loop_head.start fractional_run]])
  moreover have "reachable mining_env negative_limit_config (start_state mining_env)"
    by (rule reachable.at_head [OF loop_head.start])
  moreover have "range (relay mining_env) = {WaitResult mined_result}"
    by (auto simp: mining_env_def mining_relay_def)
  moreover have "\<not> exhaustion_signal (relay throttled_wait_env 0)"
      "\<not> exhaustion_signal (relay throttled_wait_env 1)"
    by (simp_all add: exhaustion_signal_def throttled_wait_env_def throttled_wait_relay_def
        exhausted_error_signal)
  ultimately show ?thesis
    by (simp add: tiny_limit_config_def one_by_one_config_def small_min_config_def
        half_limit_config_def negative_limit_config_def
        default_config_def overdrawn_state_def fractional_state_def start_state_def
        wait_rate_limited_def exhaustion_signal_def)
qed

end
